theory Spec2Isabelle
  imports Complex_Main "HOL-Library.Char_ord" "HOL-Library.Multiset"
begin

section \<open>Numbers, points and draw commands\<close>

text \<open>
  \<open>parseCommands\<close> does three things with numbers: it turns the text of a number into
  a number with the library function \<open>parseFloat\<close>, it adds two numbers and it
  subtracts two numbers. The three operations are parameters of the parser, collected
  in one record over a type \<open>'n\<close> of numbers. What is proved of the parser for every
  such record holds for the IEEE doubles of JavaScript, with their rounding, their
  infinities, \<open>NaN\<close> and the sign of zero.
\<close>

record 'n numbers =
  parseFloatN :: "string \<Rightarrow> 'n"
  addN :: "'n \<Rightarrow> 'n \<Rightarrow> 'n"
  subN :: "'n \<Rightarrow> 'n \<Rightarrow> 'n"

datatype 'n point = Point (px: 'n) (py: 'n)

text \<open>
  The draw commands of \<open>drawcommand.ts\<close>, with the constructor arguments in the order
  in which \<open>parseCommands\<close> passes them. A start point is whatever the variable
  \<open>currentPoint\<close> holds at the time, which is \<open>undefined\<close> (here \<open>None\<close>) for the
  first move of a path; the end of a close command is the variable \<open>lastMovePoint\<close>.
\<close>

datatype 'n command =
    MoveCommand "'n point option" "'n point"
  | LineCommand "'n point option" "'n point"
  | QuadraticCurveCommand "'n point option" "'n point" "'n point"
  | BezierCurveCommand "'n point option" "'n point" "'n point" "'n point"
  | EllipticalArcCommand 'n 'n 'n 'n 'n 'n 'n 'n 'n
  | ClosePathCommand "'n point option" "'n point option"

datatype error = Error string | TypeError

datatype token = AbsoluteCommand | RelativeCommand | Value | EOF

section \<open>The tokenizer of parseCommands\<close>

definition is_lower :: "char \<Rightarrow> bool" where
  "is_lower c \<longleftrightarrow> CHR ''a'' \<le> c \<and> c \<le> CHR ''z''"

definition is_upper :: "char \<Rightarrow> bool" where
  "is_upper c \<longleftrightarrow> CHR ''A'' \<le> c \<and> c \<le> CHR ''Z''"

definition is_digit :: "char \<Rightarrow> bool" where
  "is_digit c \<longleftrightarrow> CHR ''0'' \<le> c \<and> c \<le> CHR ''9''"

definition is_value_start :: "char \<Rightarrow> bool" where
  "is_value_start c \<longleftrightarrow> is_digit c \<or> c = CHR ''.'' \<or> c = CHR ''-''"

text \<open>
  The parser's position \<open>index\<close> in \<open>pathString\<close> is modelled by the text that is
  left from \<open>index\<close> on. \<open>advanceToNextToken_\<close> moves \<open>index\<close> over unrecognized
  characters and classifies the character it stops at. Characters are compared by
  their codes, as JavaScript compares one-character strings; a character outside ASCII
  is unrecognized in the source and here.
\<close>

fun advanceToNextToken :: "string \<Rightarrow> token \<times> string" where
  "advanceToNextToken [] = (EOF, [])"
| "advanceToNextToken (c # cs) =
     (if is_lower c then (RelativeCommand, c # cs)
      else if is_upper c then (AbsoluteCommand, c # cs)
      else if is_value_start c then (Value, c # cs)
      else advanceToNextToken cs)"

text \<open>
  \<open>consumeCommand_\<close> returns the command character and leaves \<open>currentToken\<close> behind;
  the caller only reads whether that token is \<open>RelativeCommand\<close>.
\<close>

definition consumeCommand :: "string \<Rightarrow> error + (char \<times> bool \<times> string)" where
  "consumeCommand s =
     (case advanceToNextToken s of
        (RelativeCommand, c # r) \<Rightarrow> Inr (c, True, r)
      | (AbsoluteCommand, c # r) \<Rightarrow> Inr (c, False, r)
      | _ \<Rightarrow> Inl (Error ''Expected command''))"

text \<open>
  The scanning loop of \<open>consumeValue_\<close>: the flags \<open>start\<close> and \<open>seenDot\<close>, the text
  from \<open>tempIndex\<close> on; the result is the scanned text and what follows it. The scanned
  text goes to \<open>parseFloat\<close>.
\<close>

fun scanValue :: "bool \<Rightarrow> bool \<Rightarrow> string \<Rightarrow> string \<times> string" where
  "scanValue start seenDot [] = ([], [])"
| "scanValue start seenDot (c # cs) =
     (if \<not> is_digit c \<and> (c \<noteq> CHR ''.'' \<or> seenDot) \<and> (c \<noteq> CHR ''-'' \<or> \<not> start)
         \<and> c \<noteq> CHR ''e''
      then ([], c # cs)
      else (let r = scanValue (c = CHR ''e'') (seenDot \<or> c = CHR ''.'') cs
            in (c # fst r, snd r)))"

definition consumeValue :: "'n numbers \<Rightarrow> string \<Rightarrow> error + ('n \<times> string)" where
  "consumeValue N s =
     (case advanceToNextToken s of
        (Value, r) \<Rightarrow>
          (let (str, rest) = scanValue True False r
           in if str = [] then Inl (Error ''Expected value'')
              else Inr (parseFloatN N str, rest))
      | _ \<Rightarrow> Inl (Error ''Expected value''))"

definition consumePoint :: "'n numbers \<Rightarrow> bool \<Rightarrow> 'n point option \<Rightarrow> string \<Rightarrow> error + ('n point \<times> string)" where
  "consumePoint N relative currentPoint s =
     (case consumeValue N s of
        Inl e \<Rightarrow> Inl e
      | Inr (x, s1) \<Rightarrow>
          (case consumeValue N s1 of
             Inl e \<Rightarrow> Inl e
           | Inr (y, s2) \<Rightarrow>
               if relative
               then (case currentPoint of
                       None \<Rightarrow> Inl TypeError
                     | Some cur \<Rightarrow> Inr (Point (addN N x (px cur)) (addN N y (py cur)), s2))
               else Inr (Point x y, s2)))"

section \<open>The state of one parseCommands call\<close>

record 'n pstate =
  input :: string
  currentPoint :: "'n point option"
  currentControlPoint :: "'n point option"
  lastMovePoint :: "'n point option"
  commands :: "'n command list"

definition initState :: "string \<Rightarrow> 'n pstate" where
  "initState s = \<lparr>input = s, currentPoint = None, currentControlPoint = None,
                  lastMovePoint = None, commands = []\<rparr>"

text \<open>The point reflected through the current point, as the S and T cases compute it.\<close>

definition reflect :: "'n numbers \<Rightarrow> 'n point \<Rightarrow> 'n point \<Rightarrow> 'n point" where
  "reflect N cur ctl =
     Point (addN N (px cur) (subN N (px cur) (px ctl)))
           (addN N (py cur) (subN N (py cur) (py ctl)))"

section \<open>The bodies of the repetition loops\<close>

text \<open>Sequencing of steps that may throw: the first error ends the call.\<close>

fun bindE :: "error + 'a \<Rightarrow> ('a \<Rightarrow> error + 'b) \<Rightarrow> error + 'b" where
  "bindE (Inl e) f = Inl e"
| "bindE (Inr a) f = f a"

definition push :: "'n command \<Rightarrow> 'n pstate \<Rightarrow> 'n pstate" where
  "push cmd st = st\<lparr>commands := commands st @ [cmd]\<rparr>"

text \<open>
  One pass through the body of \<open>while (advanceToNextToken_() === Token.Value)\<close> in
  each case of the switch. Reading \<open>.x\<close> or \<open>.y\<close> of an undefined \<open>currentPoint\<close>
  is a \<open>TypeError\<close>.
\<close>

definition stepM :: "'n numbers \<Rightarrow> bool \<Rightarrow> bool \<Rightarrow> 'n pstate \<Rightarrow> error + 'n pstate" where
  "stepM N relative isFirstPoint st =
     bindE (consumePoint N relative (currentPoint st) (input st)) (\<lambda>(nextPoint, s1).
       Inr ((if isFirstPoint
             then (push (MoveCommand (currentPoint st) nextPoint) st)
                    \<lparr>lastMovePoint := Some nextPoint\<rparr>
             else push (LineCommand (currentPoint st) nextPoint) st)
            \<lparr>input := s1, currentControlPoint := None, currentPoint := Some nextPoint\<rparr>))"

definition stepC :: "'n numbers \<Rightarrow> bool \<Rightarrow> 'n pstate \<Rightarrow> error + 'n pstate" where
  "stepC N relative st =
     bindE (consumePoint N relative (currentPoint st) (input st)) (\<lambda>(cp1, s1).
     bindE (consumePoint N relative (currentPoint st) s1) (\<lambda>(cp2, s2).
     bindE (consumePoint N relative (currentPoint st) s2) (\<lambda>(end, s3).
       Inr ((push (BezierCurveCommand (currentPoint st) cp1 cp2 end) st)
            \<lparr>input := s3, currentControlPoint := Some cp2, currentPoint := Some end\<rparr>))))"

definition stepS :: "'n numbers \<Rightarrow> bool \<Rightarrow> 'n pstate \<Rightarrow> error + 'n pstate" where
  "stepS N relative st =
     bindE (consumePoint N relative (currentPoint st) (input st)) (\<lambda>(cp2, s1).
     bindE (consumePoint N relative (currentPoint st) s1) (\<lambda>(end, s2).
     bindE (case currentControlPoint st of
              Some ctl \<Rightarrow> (case currentPoint st of
                              None \<Rightarrow> Inl TypeError
                            | Some cur \<Rightarrow> Inr (reflect N cur ctl))
            | None \<Rightarrow> Inr cp2) (\<lambda>cp1.
       Inr ((push (BezierCurveCommand (currentPoint st) cp1 cp2 end) st)
            \<lparr>input := s2, currentControlPoint := Some cp2, currentPoint := Some end\<rparr>))))"

definition stepQ :: "'n numbers \<Rightarrow> bool \<Rightarrow> 'n pstate \<Rightarrow> error + 'n pstate" where
  "stepQ N relative st =
     bindE (consumePoint N relative (currentPoint st) (input st)) (\<lambda>(cp, s1).
     bindE (consumePoint N relative (currentPoint st) s1) (\<lambda>(end, s2).
       Inr ((push (QuadraticCurveCommand (currentPoint st) cp end) st)
            \<lparr>input := s2, currentControlPoint := Some cp, currentPoint := Some end\<rparr>)))"

definition stepT :: "'n numbers \<Rightarrow> bool \<Rightarrow> 'n pstate \<Rightarrow> error + 'n pstate" where
  "stepT N relative st =
     bindE (consumePoint N relative (currentPoint st) (input st)) (\<lambda>(end, s1).
     bindE (case currentControlPoint st of
              Some ctl \<Rightarrow> (case currentPoint st of
                              None \<Rightarrow> Inl TypeError
                            | Some cur \<Rightarrow> Inr (reflect N cur ctl))
            | None \<Rightarrow> Inr end) (\<lambda>cp.
       Inr ((push (QuadraticCurveCommand (currentPoint st) cp end) st)
            \<lparr>input := s1, currentControlPoint := Some cp, currentPoint := Some end\<rparr>)))"

definition stepL :: "'n numbers \<Rightarrow> bool \<Rightarrow> 'n pstate \<Rightarrow> error + 'n pstate" where
  "stepL N relative st =
     bindE (consumePoint N relative (currentPoint st) (input st)) (\<lambda>(end, s1).
       Inr ((push (LineCommand (currentPoint st) end) st)
            \<lparr>input := s1, currentControlPoint := None, currentPoint := Some end\<rparr>))"

definition stepH :: "'n numbers \<Rightarrow> bool \<Rightarrow> 'n pstate \<Rightarrow> error + 'n pstate" where
  "stepH N relative st =
     bindE (consumeValue N (input st)) (\<lambda>(x0, s1).
     bindE (case currentPoint st of None \<Rightarrow> Inl TypeError | Some cur \<Rightarrow> Inr cur) (\<lambda>cur.
       let y = py cur;
           x = (if relative then addN N x0 (px cur) else x0);
           end = Point x y
       in Inr ((push (LineCommand (currentPoint st) end) st)
               \<lparr>input := s1, currentControlPoint := None, currentPoint := Some end\<rparr>)))"

definition stepV :: "'n numbers \<Rightarrow> bool \<Rightarrow> 'n pstate \<Rightarrow> error + 'n pstate" where
  "stepV N relative st =
     bindE (case currentPoint st of None \<Rightarrow> Inl TypeError | Some cur \<Rightarrow> Inr cur) (\<lambda>cur.
     bindE (consumeValue N (input st)) (\<lambda>(y0, s1).
       let x = px cur;
           y = (if relative then addN N y0 (py cur) else y0);
           end = Point x y
       in Inr ((push (LineCommand (currentPoint st) end) st)
               \<lparr>input := s1, currentControlPoint := None, currentPoint := Some end\<rparr>)))"

definition stepA :: "'n numbers \<Rightarrow> bool \<Rightarrow> 'n pstate \<Rightarrow> error + 'n pstate" where
  "stepA N relative st =
     bindE (consumeValue N (input st)) (\<lambda>(rx, s1).
     bindE (consumeValue N s1) (\<lambda>(ry, s2).
     bindE (consumeValue N s2) (\<lambda>(xAxisRotation, s3).
     bindE (consumeValue N s3) (\<lambda>(largeArcFlag, s4).
     bindE (consumeValue N s4) (\<lambda>(sweepFlag, s5).
     bindE (consumePoint N relative (currentPoint st) s5) (\<lambda>(tempPoint1, s6).
     bindE (case currentPoint st of None \<Rightarrow> Inl TypeError | Some cur \<Rightarrow> Inr cur) (\<lambda>cur.
       Inr ((push (EllipticalArcCommand (px cur) (py cur) rx ry
                     xAxisRotation largeArcFlag sweepFlag (px tempPoint1) (py tempPoint1)) st)
            \<lparr>input := s6, currentControlPoint := None,
              currentPoint := Some tempPoint1\<rparr>))))))))"

text \<open>The cases of the switch whose loops have the same shape, and their bodies.\<close>

datatype run = RunC | RunS | RunQ | RunT | RunL | RunH | RunV | RunA

fun loopBody :: "'n numbers \<Rightarrow> run \<Rightarrow> bool \<Rightarrow> 'n pstate \<Rightarrow> error + 'n pstate" where
  "loopBody N RunC = stepC N"
| "loopBody N RunS = stepS N"
| "loopBody N RunQ = stepQ N"
| "loopBody N RunT = stepT N"
| "loopBody N RunL = stepL N"
| "loopBody N RunH = stepH N"
| "loopBody N RunV = stepV N"
| "loopBody N RunA = stepA N"

section \<open>Every value consumed shortens the input\<close>

lemma advanceToNextToken_length: "length (snd (advanceToNextToken s)) \<le> length s"
  by (induction s) auto

lemma scanValue_length:
  "length (fst (scanValue a b s)) + length (snd (scanValue a b s)) = length s"
  by (induction s arbitrary: a b) (auto simp: Let_def)

lemma consumeValue_shorter:
  assumes "consumeValue N s = Inr (v, r)"
  shows "length r < length s"
proof -
  obtain t r0 where adv: "advanceToNextToken s = (t, r0)"
    by (cases "advanceToNextToken s")
  obtain str rest where sc: "scanValue True False r0 = (str, rest)"
    by (cases "scanValue True False r0")
  from assms adv sc have "t = Value" and "str \<noteq> []" and "r = rest"
    by (auto simp: consumeValue_def split: token.splits if_splits)
  moreover from scanValue_length [of True False r0] sc
  have "length str + length rest = length r0" by simp
  moreover from advanceToNextToken_length [of s] adv have "length r0 \<le> length s" by simp
  ultimately show ?thesis by (cases str) auto
qed

lemma consumePoint_shorter:
  assumes "consumePoint N rel cur s = Inr (p, r)"
  shows "length r < length s"
proof -
  from assms obtain x s1 y where a: "consumeValue N s = Inr (x, s1)"
    and b: "consumeValue N s1 = Inr (y, r)"
    by (auto simp: consumePoint_def split: sum.splits option.splits if_splits)
  from consumeValue_shorter [OF a] consumeValue_shorter [OF b] show ?thesis by simp
qed

lemma bindE_Inr: "bindE m f = Inr b \<Longrightarrow> \<exists>a. m = Inr a \<and> f a = Inr b"
  by (cases m) auto

lemma stepM_shorter: "stepM N rel first st = Inr st' \<Longrightarrow> length (input st') < length (input st)"
  by (auto simp: stepM_def push_def dest!: bindE_Inr consumePoint_shorter)

lemma stepC_shorter: "stepC N rel st = Inr st' \<Longrightarrow> length (input st') < length (input st)"
  by (auto simp: stepC_def push_def dest!: bindE_Inr consumePoint_shorter)

lemma stepS_shorter: "stepS N rel st = Inr st' \<Longrightarrow> length (input st') < length (input st)"
  by (auto simp: stepS_def push_def dest!: bindE_Inr consumePoint_shorter)

lemma stepQ_shorter: "stepQ N rel st = Inr st' \<Longrightarrow> length (input st') < length (input st)"
  by (auto simp: stepQ_def push_def dest!: bindE_Inr consumePoint_shorter)

lemma stepT_shorter: "stepT N rel st = Inr st' \<Longrightarrow> length (input st') < length (input st)"
  by (auto simp: stepT_def push_def dest!: bindE_Inr consumePoint_shorter)

lemma stepL_shorter: "stepL N rel st = Inr st' \<Longrightarrow> length (input st') < length (input st)"
  by (auto simp: stepL_def push_def dest!: bindE_Inr consumePoint_shorter)

lemma stepH_shorter: "stepH N rel st = Inr st' \<Longrightarrow> length (input st') < length (input st)"
  by (auto simp: stepH_def push_def Let_def dest!: bindE_Inr consumeValue_shorter)

lemma stepV_shorter: "stepV N rel st = Inr st' \<Longrightarrow> length (input st') < length (input st)"
  by (auto simp: stepV_def push_def Let_def dest!: bindE_Inr consumeValue_shorter)

lemma stepA_shorter: "stepA N rel st = Inr st' \<Longrightarrow> length (input st') < length (input st)"
  by (auto simp: stepA_def push_def dest!: bindE_Inr consumeValue_shorter consumePoint_shorter)

lemma loopBody_shorter:
  "loopBody N k rel st = Inr st' \<Longrightarrow> length (input st') < length (input st)"
  by (cases k)
     (auto dest: stepC_shorter stepS_shorter stepQ_shorter stepT_shorter stepL_shorter
        stepH_shorter stepV_shorter stepA_shorter)

section \<open>The repetition loops and the main loop\<close>

text \<open>
  \<open>while (advanceToNextToken_() === Token.Value) { body }\<close>. The call of
  \<open>advanceToNextToken_\<close> that ends the loop has moved \<open>index\<close> as well.
\<close>

function valueLoop :: "'n numbers \<Rightarrow> run \<Rightarrow> bool \<Rightarrow> 'n pstate \<Rightarrow> error + 'n pstate" where
  "valueLoop N k relative st =
     (case advanceToNextToken (input st) of
        (Value, r) \<Rightarrow>
          (case loopBody N k relative (st\<lparr>input := r\<rparr>) of
             Inl e \<Rightarrow> Inl e
           | Inr st' \<Rightarrow> valueLoop N k relative st')
      | (_, r) \<Rightarrow> Inr (st\<lparr>input := r\<rparr>))"
  by pat_completeness auto
termination
proof (relation "measure (\<lambda>(N, k, rel, st). length (input st))", goal_cases)
  case 1
  show ?case by simp
next
  case (2 N k relative st x1 x2 st')
  from loopBody_shorter [OF 2(3)] advanceToNextToken_length [of "input st"] 2(1) [symmetric]
  show ?case by simp
qed

text \<open>The loop of the M case, with its local flag \<open>isFirstPoint\<close>.\<close>

function moveLoop :: "'n numbers \<Rightarrow> bool \<Rightarrow> bool \<Rightarrow> 'n pstate \<Rightarrow> error + 'n pstate" where
  "moveLoop N relative isFirstPoint st =
     (case advanceToNextToken (input st) of
        (Value, r) \<Rightarrow>
          (case stepM N relative isFirstPoint (st\<lparr>input := r\<rparr>) of
             Inl e \<Rightarrow> Inl e
           | Inr st' \<Rightarrow> moveLoop N relative False st')
      | (_, r) \<Rightarrow> Inr (st\<lparr>input := r\<rparr>))"
  by pat_completeness auto
termination
proof (relation "measure (\<lambda>(N, rel, first, st). length (input st))", goal_cases)
  case 1
  show ?case by simp
next
  case (2 N relative isFirstPoint st x1 x2 st')
  from stepM_shorter [OF 2(3)] advanceToNextToken_length [of "input st"] 2(1) [symmetric]
  show ?case by simp
qed

declare valueLoop.simps [simp del] moveLoop.simps [simp del]

definition noCurrentPoint :: error where
  "noCurrentPoint = Error ''Current point does not exist''"

text \<open>
  The switch on the command character: the case labels first, then the cases. A
  letter that no case names falls through the switch and does nothing.
\<close>

definition runCase :: "'n numbers \<Rightarrow> run \<Rightarrow> bool \<Rightarrow> 'n pstate \<Rightarrow> error + 'n pstate" where
  "runCase N k relative st =
     (if currentPoint st = None then Inl noCurrentPoint else valueLoop N k relative st)"

datatype label = CaseM | CaseRun run | CaseZ | NoCase

definition caseOf :: "char \<Rightarrow> label" where
  "caseOf commandChar =
     (if commandChar = CHR ''M'' \<or> commandChar = CHR ''m'' then CaseM
      else if commandChar = CHR ''C'' \<or> commandChar = CHR ''c'' then CaseRun RunC
      else if commandChar = CHR ''S'' \<or> commandChar = CHR ''s'' then CaseRun RunS
      else if commandChar = CHR ''Q'' \<or> commandChar = CHR ''q'' then CaseRun RunQ
      else if commandChar = CHR ''T'' \<or> commandChar = CHR ''t'' then CaseRun RunT
      else if commandChar = CHR ''L'' \<or> commandChar = CHR ''l'' then CaseRun RunL
      else if commandChar = CHR ''H'' \<or> commandChar = CHR ''h'' then CaseRun RunH
      else if commandChar = CHR ''V'' \<or> commandChar = CHR ''v'' then CaseRun RunV
      else if commandChar = CHR ''A'' \<or> commandChar = CHR ''a'' then CaseRun RunA
      else if commandChar = CHR ''Z'' \<or> commandChar = CHR ''z'' then CaseZ
      else NoCase)"

definition switchCommand :: "'n numbers \<Rightarrow> char \<Rightarrow> bool \<Rightarrow> 'n pstate \<Rightarrow> error + 'n pstate" where
  "switchCommand N commandChar relative st =
     (case caseOf commandChar of
        CaseM \<Rightarrow>
          if relative \<and> currentPoint st = None
          then Inl (Error ''Current point must be set for a relative command'')
          else moveLoop N relative True st
      | CaseRun k \<Rightarrow> runCase N k relative st
      | CaseZ \<Rightarrow>
          if currentPoint st = None then Inl noCurrentPoint
          else Inr (push (ClosePathCommand (currentPoint st) (lastMovePoint st)) st)
      | NoCase \<Rightarrow> Inr st)"

lemma valueLoop_length:
  "valueLoop N k rel st = Inr st' \<Longrightarrow> length (input st') \<le> length (input st)"
proof (induction N k rel st rule: valueLoop.induct)
  case (1 N k relative st)
  obtain t r where adv: "advanceToNextToken (input st) = (t, r)"
    by (cases "advanceToNextToken (input st)")
  from advanceToNextToken_length [of "input st"] adv
  have le: "length r \<le> length (input st)" by simp
  show ?case
  proof (cases "t = Value")
    case True
    with "1.prems" adv obtain st1 where
      b: "loopBody N k relative (st\<lparr>input := r\<rparr>) = Inr st1"
      and l: "valueLoop N k relative st1 = Inr st'"
      by (subst (asm) valueLoop.simps) (auto split: sum.splits)
    from "1.IH" [OF adv [symmetric] True b l] loopBody_shorter [OF b] le
    show ?thesis by simp
  next
    case False
    with "1.prems" adv have "st' = st\<lparr>input := r\<rparr>"
      by (subst (asm) valueLoop.simps) (auto split: token.splits)
    with le show ?thesis by simp
  qed
qed

lemma moveLoop_length:
  "moveLoop N rel first st = Inr st' \<Longrightarrow> length (input st') \<le> length (input st)"
proof (induction N rel first st rule: moveLoop.induct)
  case (1 N relative isFirstPoint st)
  obtain t r where adv: "advanceToNextToken (input st) = (t, r)"
    by (cases "advanceToNextToken (input st)")
  from advanceToNextToken_length [of "input st"] adv
  have le: "length r \<le> length (input st)" by simp
  show ?case
  proof (cases "t = Value")
    case True
    with "1.prems" adv obtain st1 where
      b: "stepM N relative isFirstPoint (st\<lparr>input := r\<rparr>) = Inr st1"
      and l: "moveLoop N relative False st1 = Inr st'"
      by (subst (asm) moveLoop.simps) (auto split: sum.splits)
    from "1.IH" [OF adv [symmetric] True b l] stepM_shorter [OF b] le
    show ?thesis by simp
  next
    case False
    with "1.prems" adv have "st' = st\<lparr>input := r\<rparr>"
      by (subst (asm) moveLoop.simps) (auto split: token.splits)
    with le show ?thesis by simp
  qed
qed

lemma runCase_length:
  "runCase N k rel st = Inr st' \<Longrightarrow> length (input st') \<le> length (input st)"
  by (auto simp: runCase_def split: if_splits dest: valueLoop_length)

lemma switchCommand_length:
  "switchCommand N c rel st = Inr st' \<Longrightarrow> length (input st') \<le> length (input st)"
  by (cases "caseOf c")
     (auto simp: switchCommand_def push_def split: if_splits
        dest: runCase_length moveLoop_length)

lemma consumeCommand_shorter:
  "consumeCommand s = Inr (c, rel, r) \<Longrightarrow> length r < length s"
  using advanceToNextToken_length [of s]
  by (auto simp: consumeCommand_def split: prod.splits token.splits list.splits)

text \<open>
  \<open>while (index < pathString.length) { ... }\<close> and the value that \<open>parseCommands\<close>
  returns when no transform is given (\<open>matrices\<close> undefined).
\<close>

function parseLoop :: "'n numbers \<Rightarrow> 'n pstate \<Rightarrow> error + 'n command list" where
  "parseLoop N st =
     (if input st = [] then Inr (commands st)
      else (case consumeCommand (input st) of
              Inl e \<Rightarrow> Inl e
            | Inr (commandChar, relative, r) \<Rightarrow>
                (case switchCommand N commandChar relative (st\<lparr>input := r\<rparr>) of
                   Inl e \<Rightarrow> Inl e
                 | Inr st' \<Rightarrow> parseLoop N st')))"
  by pat_completeness auto
termination
proof (relation "measure (\<lambda>(N, st). length (input st))", goal_cases)
  case 1
  show ?case by simp
next
  case (2 N st x2 commandChar y relative r st')
  from consumeCommand_shorter [of "input st" commandChar relative r] 2
    switchCommand_length [of N commandChar relative "st\<lparr>input := r\<rparr>" st']
  show ?case by simp
qed

declare parseLoop.simps [simp del]

definition parseCommandsWith :: "'n numbers \<Rightarrow> string \<Rightarrow> error + 'n command list" where
  "parseCommandsWith N pathString = parseLoop N (initState pathString)"

section \<open>The parser on decimal numbers\<close>

text \<open>
  One record of numbers, on which the parser is run on concrete path strings: a number
  is an exact rational or \<open>NaN\<close>, and \<open>parseFloat\<close> gives the exact value of the
  decimal literal it reads. This is the number that JavaScript gives wherever a double
  holds that value exactly, as it does for every number in the path strings evaluated
  below (integers up to \<open>1e21\<close>), where the sums and differences that the parser
  forms are exact as well. Rounding, overflow to an infinity and the sign of
  zero are not in this record; the theorems on all path strings are proved for every
  record of numbers.
\<close>

datatype num = Num rat | NaN

fun num_add :: "num \<Rightarrow> num \<Rightarrow> num" where
  "num_add (Num a) (Num b) = Num (a + b)"
| "num_add _ _ = NaN"

fun num_sub :: "num \<Rightarrow> num \<Rightarrow> num" where
  "num_sub (Num a) (Num b) = Num (a - b)"
| "num_sub _ _ = NaN"

text \<open>
  The library function \<open>parseFloat\<close> on the texts the scanner can hand over: the
  longest prefix that is a decimal literal (sign, digits, fraction, exponent), and
  \<open>NaN\<close> when there is none.
\<close>

definition digitsVal :: "string \<Rightarrow> nat" where
  "digitsVal ds = foldl (\<lambda>n c. 10 * n + (of_char c - 48)) 0 ds"

definition splitSign :: "string \<Rightarrow> bool \<times> string" where
  "splitSign s =
     (case s of
        [] \<Rightarrow> (False, s)
      | c # t \<Rightarrow> if c = CHR ''-'' then (True, t) else if c = CHR ''+'' then (False, t)
                 else (False, s))"

definition exponentPart :: "string \<Rightarrow> int" where
  "exponentPart s =
     (case s of
        [] \<Rightarrow> 0
      | c # t \<Rightarrow>
          if c = CHR ''e'' \<or> c = CHR ''E''
          then (let (neg, t1) = splitSign t; ds = takeWhile is_digit t1
                in if ds = [] then 0
                   else if neg then - int (digitsVal ds) else int (digitsVal ds))
          else 0)"

definition scale10 :: "rat \<Rightarrow> int \<Rightarrow> rat" where
  "scale10 m e = (if 0 \<le> e then m * 10 ^ nat e else m / 10 ^ nat (- e))"

definition parseFloat :: "string \<Rightarrow> num" where
  "parseFloat s =
     (let (neg, s1) = splitSign s;
          ip = takeWhile is_digit s1;
          s2 = dropWhile is_digit s1;
          (fp, s3) = (case s2 of
                        [] \<Rightarrow> ([], s2)
                      | c # t \<Rightarrow> if c = CHR ''.''
                                 then (takeWhile is_digit t, dropWhile is_digit t)
                                 else ([], s2));
          m = rat_of_nat (digitsVal (ip @ fp)) / 10 ^ length fp
      in if ip = [] \<and> fp = [] then NaN
         else Num (scale10 (if neg then - m else m) (exponentPart s3)))"

definition decimalNumbers :: "num numbers" where
  "decimalNumbers = \<lparr>parseFloatN = parseFloat, addN = num_add, subN = num_sub\<rparr>"

text \<open>\<open>parseCommands\<close> on these numbers.\<close>

definition parseCommands :: "string \<Rightarrow> error + num command list" where
  "parseCommands pathString = parseCommandsWith decimalNumbers pathString"

section \<open>The serializer commandsToString\<close>

text \<open>
  Modelled from the spec: the field \<open>svgChar\<close> of the command classes of
  \<open>drawcommand.ts\<close>, which are not among the sources. It is the kind letter of the
  command.
\<close>

fun svgChar :: "'n command \<Rightarrow> char" where
  "svgChar (MoveCommand s e) = CHR ''M''"
| "svgChar (LineCommand s e) = CHR ''L''"
| "svgChar (QuadraticCurveCommand s c e) = CHR ''Q''"
| "svgChar (BezierCurveCommand s c1 c2 e) = CHR ''C''"
| "svgChar (EllipticalArcCommand x0 y0 rx ry rot laf sf x1 y1) = CHR ''A''"
| "svgChar (ClosePathCommand s e) = CHR ''Z''"

text \<open>
  Modelled from the spec: \<open>cmd.points.slice(1)\<close>, where the field \<open>points\<close> of the
  absent command classes holds the start anchor, the control points and the end
  anchor of a command, in this order.
\<close>

fun pointsAfterStart :: "'n command \<Rightarrow> 'n point list" where
  "pointsAfterStart (MoveCommand s e) = [e]"
| "pointsAfterStart (LineCommand s e) = [e]"
| "pointsAfterStart (QuadraticCurveCommand s c e) = [c, e]"
| "pointsAfterStart (BezierCurveCommand s c1 c2 e) = [c1, c2, e]"
| "pointsAfterStart (EllipticalArcCommand x0 y0 rx ry rot laf sf x1 y1) = [Point x1 y1]"
| "pointsAfterStart (ClosePathCommand s e) = (case e of None \<Rightarrow> [] | Some p \<Rightarrow> [p])"

text \<open>The test \<open>cmd instanceof EllipticalArcCommand\<close>.\<close>

fun isEllipticalArc :: "'n command \<Rightarrow> bool" where
  "isEllipticalArc (EllipticalArcCommand x0 y0 rx ry rot laf sf x1 y1) = True"
| "isEllipticalArc c = False"

text \<open>
  Modelled from the spec: the field \<open>args\<close> of the absent class
  \<open>EllipticalArcCommand\<close>, its nine constructor arguments with the start point first
  (\<open>commandsToString\<close> skips the first two of them).
\<close>

fun arcArgs :: "'n command \<Rightarrow> 'n list" where
  "arcArgs (EllipticalArcCommand x0 y0 rx ry rot laf sf x1 y1) =
     [x0, y0, rx, ry, rot, laf, sf, x1, y1]"
| "arcArgs c = []"

definition toUpperCase :: "char \<Rightarrow> char" where
  "toUpperCase c = (if is_lower c then char_of (of_char c - (32::nat)) else c)"

text \<open>
  An element of the array \<open>tokens\<close>: a string, or (for an arc) the array of numbers that
  \<open>splice\<close> inserts as one element. \<open>join\<close> turns an array element into the texts of
  its numbers with commas between them.
\<close>

datatype 'n jsToken = Str string | Arr "'n list"

fun joinWith :: "string \<Rightarrow> string list \<Rightarrow> string" where
  "joinWith sep [] = []"
| "joinWith sep [x] = x"
| "joinWith sep (x # y # r) = x @ sep @ joinWith sep (y # r)"

fun tokenText :: "('n \<Rightarrow> string) \<Rightarrow> 'n jsToken \<Rightarrow> string" where
  "tokenText numToString (Str s) = s"
| "tokenText numToString (Arr ns) = joinWith '','' (map numToString ns)"

text \<open>
  The library functions on numbers are parameters: \<open>toFixed n d\<close> is \<open>n.toFixed(d)\<close>,
  \<open>toNumber\<close> is \<open>Number(...)\<close> of a text and \<open>numToString\<close> is the text of a number.
\<close>

definition commandTokens ::
  "('n \<Rightarrow> nat \<Rightarrow> string) \<Rightarrow> (string \<Rightarrow> 'n) \<Rightarrow> ('n \<Rightarrow> string) \<Rightarrow> 'n command \<Rightarrow> 'n jsToken list" where
  "commandTokens toFixed toNumber numToString cmd =
     Str [svgChar cmd] #
     (if isEllipticalArc cmd then [Arr (drop 2 (arcArgs cmd))]
      else (let isClosePathCommand = (toUpperCase (svgChar cmd) = CHR ''Z'');
                args = concat (map (\<lambda>p. [px p, py p])
                         (if isClosePathCommand then [] else pointsAfterStart cmd))
            in map (\<lambda>n. Str (numToString (toNumber (toFixed n 3)))) args))"

definition commandsToString ::
  "('n \<Rightarrow> nat \<Rightarrow> string) \<Rightarrow> (string \<Rightarrow> 'n) \<Rightarrow> ('n \<Rightarrow> string) \<Rightarrow> 'n command list \<Rightarrow> string" where
  "commandsToString toFixed toNumber numToString cmds =
     joinWith '' '' (map (tokenText numToString)
       (concat (map (commandTokens toFixed toNumber numToString) cmds)))"

section \<open>The compatibility fixer of AutoAwesome.ts\<close>

text \<open>
  The path container, the command model, the sequence aligner, \<open>PathUtil.sortPathOps\<close>
  and \<open>MathUtil.distance\<close> are not among the sources; the functions of
  \<open>AutoAwesome.ts\<close> are modelled over them as parameters, collected in one record.
  A path \<open>'p\<close> has subpaths \<open>'s\<close> of commands \<open>'c\<close> with end anchors \<open>'pt\<close>; scores
  are numbers \<open>'r\<close>. \<open>getSubPath p i\<close> is \<open>None\<close> where JavaScript yields
  \<open>undefined\<close>, and a method call on it is a \<open>TypeError\<close>. Each operation of the
  mutator (\<open>p.mutate().op(...).build()\<close>) is a function on paths.
\<close>

record ('c, 'r) alignment =
  alignFrom :: "'c option list"
  alignTo :: "'c option list"
  score :: 'r

record splitOp =
  opSubIdx :: nat
  opCmdIdx :: int
  opTs :: "rat list"

record ('p, 's, 'c, 'pt, 'r) env =
  numSubPaths :: "'p \<Rightarrow> nat"
  getSubPath :: "'p \<Rightarrow> nat \<Rightarrow> 's option"
  getCommands :: "'s \<Rightarrow> 'c list"
  isClosed :: "'s \<Rightarrow> bool"
  reverseSubPath :: "nat \<Rightarrow> 'p \<Rightarrow> 'p"
  shiftSubPathBack :: "nat \<Rightarrow> nat \<Rightarrow> 'p \<Rightarrow> 'p"
  splitCommand :: "nat \<Rightarrow> int \<Rightarrow> rat list \<Rightarrow> 'p \<Rightarrow> 'p"
  convertCommand :: "nat \<Rightarrow> nat \<Rightarrow> char \<Rightarrow> 'p \<Rightarrow> 'p"
  getSvgChar :: "'c \<Rightarrow> char"
  canConvertTo :: "'c \<Rightarrow> char \<Rightarrow> bool"
  getEnd :: "'c \<Rightarrow> 'pt"
  distance :: "'pt \<Rightarrow> 'pt \<Rightarrow> 'r"
  MATCH :: 'r
  MISMATCH :: 'r
  align :: "'c list \<Rightarrow> 'c list \<Rightarrow> ('c \<Rightarrow> 'c \<Rightarrow> 'r) \<Rightarrow> ('c, 'r) alignment"
  sortPathOps :: "splitOp list \<Rightarrow> splitOp list"

definition commandsOf :: "('p, 's, 'c, 'pt, 'r) env \<Rightarrow> 'p \<Rightarrow> nat \<Rightarrow> error + 'c list" where
  "commandsOf E p subIdx =
     (case getSubPath E p subIdx of
        None \<Rightarrow> Inl TypeError
      | Some s \<Rightarrow> Inr (getCommands E s))"

text \<open>
  Modelled from the spec: \<open>Path.getCommand(subIdx, cmdIdx)\<close>, absent from the sources,
  is the command at \<open>cmdIdx\<close> of the subpath at \<open>subIdx\<close>, and \<open>undefined\<close> past its
  end.
\<close>

definition getCommand :: "('p, 's, 'c, 'pt, 'r) env \<Rightarrow> 'p \<Rightarrow> nat \<Rightarrow> nat \<Rightarrow> error + 'c option" where
  "getCommand E p subIdx cmdIdx =
     bindE (commandsOf E p subIdx) (\<lambda>cmds.
       Inr (if cmdIdx < length cmds then Some (cmds ! cmdIdx) else None))"

fun mapE :: "('a \<Rightarrow> error + 'b) \<Rightarrow> 'a list \<Rightarrow> error + 'b list" where
  "mapE f [] = Inr []"
| "mapE f (x # xs) = bindE (f x) (\<lambda>y. bindE (mapE f xs) (\<lambda>ys. Inr (y # ys)))"

subsection \<open>Candidate generation\<close>

text \<open>The callback of \<open>_.flatMap\<close>: the path and, if its subpath is closed, its shifts.\<close>

definition shiftedPaths :: "('p, 's, 'c, 'pt, 'r) env \<Rightarrow> nat \<Rightarrow> 'p \<Rightarrow> error + 'p list" where
  "shiftedPaths E subIdx p =
     (case getSubPath E p subIdx of
        None \<Rightarrow> Inl TypeError
      | Some s \<Rightarrow>
          Inr (p # (if isClosed E s
                    then map (\<lambda>i. shiftSubPathBack E subIdx i p)
                           [1 ..< length (getCommands E s) - 1]
                    else [])))"

definition fromPaths :: "('p, 's, 'c, 'pt, 'r) env \<Rightarrow> nat \<Rightarrow> 'p \<Rightarrow> error + 'p list" where
  "fromPaths E subIdx fromPath =
     bindE (mapE (shiftedPaths E subIdx) [fromPath, reverseSubPath E subIdx fromPath])
       (\<lambda>pss. Inr (concat pss))"

subsection \<open>Scoring and alignment selection\<close>

definition getScoreFn :: "('p, 's, 'c, 'pt, 'r::linordered_field) env \<Rightarrow> 'c \<Rightarrow> 'c \<Rightarrow> 'r" where
  "getScoreFn E a b =
     (let charA = getSvgChar E a; charB = getSvgChar E b
      in if charA \<noteq> charB \<and> \<not> canConvertTo E a charB \<and> \<not> canConvertTo E b charA
         then MISMATCH E
         else 1 / max (MATCH E) (distance E (getEnd E a) (getEnd E b)))"

definition alignmentInfos ::
  "('p, 's, 'c, 'pt, 'r::linordered_field) env \<Rightarrow> nat \<Rightarrow> 'p list \<Rightarrow> 'p
     \<Rightarrow> error + ('p \<times> ('c, 'r) alignment) list" where
  "alignmentInfos E subIdx paths toPath =
     mapE (\<lambda>generatedFromPath.
       bindE (commandsOf E generatedFromPath subIdx) (\<lambda>fromCmds.
       bindE (commandsOf E toPath subIdx) (\<lambda>toCmds.
         Inr (generatedFromPath, align E fromCmds toCmds (getScoreFn E))))) paths"

text \<open>
  \<open>alignmentInfos.reduce((prev, curr) => prevScore > currScore ? prev : curr)\<close>;
  \<open>reduce\<close> of an empty array with no initial value is a \<open>TypeError\<close>.
\<close>

definition keepBetter :: "'a \<times> ('c, 'r::linorder) alignment \<Rightarrow> 'a \<times> ('c, 'r) alignment
     \<Rightarrow> 'a \<times> ('c, 'r) alignment" where
  "keepBetter prev cur = (if score (snd prev) > score (snd cur) then prev else cur)"

definition bestAlignment ::
  "('a \<times> ('c, 'r::linorder) alignment) list \<Rightarrow> error + ('a \<times> ('c, 'r) alignment)" where
  "bestAlignment infos =
     (case infos of
        [] \<Rightarrow> Inl TypeError
      | x # xs \<Rightarrow> Inr (foldl keepBetter x xs))"

subsection \<open>Gap streaks and splits\<close>

record cmdInfo =
  isGap :: bool
  isNextGap :: bool
  nextCmdIdx :: nat

fun processAlignmentsFrom :: "nat \<Rightarrow> 'c option list \<Rightarrow> cmdInfo list" where
  "processAlignmentsFrom n [] = []"
| "processAlignmentsFrom n (a # as) =
     (let gap = (a = None);
          nextGap = (case as of [] \<Rightarrow> False | b # bs \<Rightarrow> b = None);
          n' = (if \<not> gap then n + 1 else n)
      in \<lparr>isGap = gap, isNextGap = nextGap, nextCmdIdx = n'\<rparr> # processAlignmentsFrom n' as)"

definition processAlignments :: "'c option list \<Rightarrow> cmdInfo list" where
  "processAlignments alignments = processAlignmentsFrom 0 alignments"

fun gapStreaksFrom :: "cmdInfo list \<Rightarrow> cmdInfo list \<Rightarrow> cmdInfo list list" where
  "gapStreaksFrom currentGapStreak [] = []"
| "gapStreaksFrom currentGapStreak (info # infos) =
     (if isGap info
      then (if \<not> isNextGap info
            then (currentGapStreak @ [info]) # gapStreaksFrom [] infos
            else gapStreaksFrom (currentGapStreak @ [info]) infos)
      else gapStreaksFrom currentGapStreak infos)"

definition createGapStreaks :: "cmdInfo list \<Rightarrow> cmdInfo list list" where
  "createGapStreaks cmdInfos = gapStreaksFrom [] cmdInfos"

text \<open>\<open>_.clamp(number, lower, upper)\<close>: the upper bound first, the lower bound last.\<close>

definition clamp :: "int \<Rightarrow> int \<Rightarrow> int \<Rightarrow> int" where
  "clamp number lower upper =
     (let n1 = (if number \<le> upper then number else upper)
      in if n1 \<ge> lower then n1 else lower)"

definition splitOpOf :: "nat \<Rightarrow> nat \<Rightarrow> cmdInfo list \<Rightarrow> error + splitOp" where
  "splitOpOf subIdx numPaths gapGroup =
     (case gapGroup of
        [] \<Rightarrow> Inl TypeError
      | g # gs \<Rightarrow>
          Inr \<lparr>opSubIdx = subIdx,
               opCmdIdx = clamp (int (nextCmdIdx (last gapGroup))) 1 (int numPaths - 1),
               opTs = map (\<lambda>gapIdx. (rat_of_nat gapIdx + 1) / (rat_of_nat (length gapGroup) + 1))
                        [0 ..< length gapGroup]\<rparr>)"

definition applySplits ::
  "('p, 's, 'c, 'pt, 'r) env \<Rightarrow> nat \<Rightarrow> 'p \<Rightarrow> cmdInfo list list \<Rightarrow> error + 'p" where
  "applySplits E subIdx path gapGroups =
     bindE (commandsOf E path subIdx) (\<lambda>cmds.
     bindE (mapE (splitOpOf subIdx (length cmds)) (rev gapGroups)) (\<lambda>splitOps.
       Inr (foldl (\<lambda>mutator op. splitCommand E subIdx (opCmdIdx op) (opTs op) mutator)
              path (sortPathOps E splitOps))))"

subsection \<open>autoConvert, autoFixSubPath and autoFix\<close>

fun convertLoop ::
  "('p, 's, 'c, 'pt, 'r) env \<Rightarrow> nat \<Rightarrow> 'p \<Rightarrow> 'p \<Rightarrow> 'p \<Rightarrow> (nat \<times> 'c) list \<Rightarrow> error + ('p \<times> 'p)" where
  "convertLoop E subIdx toPath fromMutator toMutator [] = Inr (fromMutator, toMutator)"
| "convertLoop E subIdx toPath fromMutator toMutator ((cmdIdx, fromCmd) # rest) =
     bindE (getCommand E toPath subIdx cmdIdx) (\<lambda>t.
       case t of
         None \<Rightarrow> Inl TypeError
       | Some toCmd \<Rightarrow>
           if getSvgChar E fromCmd = getSvgChar E toCmd
           then convertLoop E subIdx toPath fromMutator toMutator rest
           else if canConvertTo E fromCmd (getSvgChar E toCmd)
           then convertLoop E subIdx toPath
                  (convertCommand E subIdx cmdIdx (getSvgChar E toCmd) fromMutator) toMutator rest
           else if canConvertTo E toCmd (getSvgChar E fromCmd)
           then convertLoop E subIdx toPath fromMutator
                  (convertCommand E subIdx cmdIdx (getSvgChar E fromCmd) toMutator) rest
           else convertLoop E subIdx toPath fromMutator toMutator rest)"

definition autoConvert ::
  "('p, 's, 'c, 'pt, 'r) env \<Rightarrow> nat \<Rightarrow> 'p \<Rightarrow> 'p \<Rightarrow> error + ('p \<times> 'p)" where
  "autoConvert E subIdx fromPath toPath =
     bindE (commandsOf E fromPath subIdx) (\<lambda>fromCmds.
       convertLoop E subIdx toPath fromPath toPath (zip [0 ..< length fromCmds] fromCmds))"

text \<open>Everything in \<open>autoFixSubPath\<close> before its final call of \<open>autoConvert\<close>.\<close>

definition splitStage ::
  "('p, 's, 'c, 'pt, 'r::linordered_field) env \<Rightarrow> nat \<Rightarrow> 'p \<Rightarrow> 'p \<Rightarrow> error + ('p \<times> 'p)" where
  "splitStage E subIdx fromPath toPath =
     bindE (fromPaths E subIdx fromPath) (\<lambda>paths.
     bindE (alignmentInfos E subIdx paths toPath) (\<lambda>infos.
     bindE (bestAlignment infos) (\<lambda>alignmentInfo.
       let fromGapGroups =
             createGapStreaks (processAlignments (alignFrom (snd alignmentInfo)));
           toGapGroups = createGapStreaks (processAlignments (alignTo (snd alignmentInfo)))
       in bindE (applySplits E subIdx (fst alignmentInfo) fromGapGroups) (\<lambda>fromPathResult.
          bindE (applySplits E subIdx toPath toGapGroups) (\<lambda>toPathResult.
            Inr (fromPathResult, toPathResult))))))"

definition autoFixSubPath ::
  "('p, 's, 'c, 'pt, 'r::linordered_field) env \<Rightarrow> nat \<Rightarrow> 'p \<Rightarrow> 'p \<Rightarrow> error + ('p \<times> 'p)" where
  "autoFixSubPath E subIdx fromPath toPath =
     bindE (splitStage E subIdx fromPath toPath) (\<lambda>(fromPathResult, toPathResult).
       autoConvert E subIdx fromPathResult toPathResult)"

fun autoFixLoop ::
  "('p, 's, 'c, 'pt, 'r::linordered_field) env \<Rightarrow> nat list \<Rightarrow> 'p \<Rightarrow> 'p \<Rightarrow> error + ('p \<times> 'p)" where
  "autoFixLoop E [] fromPath toPath = Inr (fromPath, toPath)"
| "autoFixLoop E (subIdx # rest) fromPath toPath =
     bindE (commandsOf E fromPath subIdx) (\<lambda>fromCmds.
     bindE (commandsOf E toPath subIdx) (\<lambda>toCmds.
       let larger = (length fromCmds \<ge> length toCmds)
       in bindE (autoFixSubPath E subIdx (if larger then fromPath else toPath)
                   (if larger then toPath else fromPath)) (\<lambda>(f, t).
            autoFixLoop E rest (if larger then f else t) (if larger then t else f))))"

definition autoFix ::
  "('p, 's, 'c, 'pt, 'r::linordered_field) env \<Rightarrow> 'p \<Rightarrow> 'p \<Rightarrow> error + ('p \<times> 'p)" where
  "autoFix E fromPath toPath =
     autoFixLoop E [0 ..< min (numSubPaths E fromPath) (numSubPaths E toPath)] fromPath toPath"

section \<open>A small instance of the absent collaborators\<close>

text \<open>
  The path container, the command model and the sequence aligner are absent from the
  sources. This section holds one instance of them, in the smallest form that the
  words of the spec allow, on which \<open>AutoAwesome.ts\<close> can be run on concrete paths.
  The theorems about \<open>AutoAwesome.ts\<close> hold for every instance.
\<close>

text \<open>
  Modelled from the spec: a command of the absent command model is its kind letter and
  its end anchor, here a point on one axis, so that the Euclidean distance of two
  anchors is the absolute value of their difference; a subpath is a list of commands
  and a path a list of subpaths.
\<close>

type_synonym simpleCmd = "char \<times> rat"

type_synonym simplePath = "simpleCmd list list"

text \<open>An operation of the mutator on the subpath at one index.\<close>

definition updateSubPath :: "(simpleCmd list \<Rightarrow> simpleCmd list) \<Rightarrow> nat \<Rightarrow> simplePath \<Rightarrow> simplePath" where
  "updateSubPath f i p = (if i < length p then p[i := f (p ! i)] else p)"

text \<open>
  Modelled from the spec: the absent \<open>reverseSubPath\<close>, the point-order reversal of a
  subpath. The kinds stay in place, the anchors are reversed.
\<close>

definition simpleReverse :: "simpleCmd list \<Rightarrow> simpleCmd list" where
  "simpleReverse s = zip (map fst s) (rev (map snd s))"

text \<open>
  Modelled from the spec: the absent \<open>shiftSubPathBack\<close>, the cyclic rotation of the
  starting command of a closed subpath. The anchors but the closing one form a ring,
  which is turned back by \<open>n\<close> and closed again.
\<close>

definition simpleShiftBack :: "nat \<Rightarrow> simpleCmd list \<Rightarrow> simpleCmd list" where
  "simpleShiftBack n s =
     (let ring = butlast (map snd s); k = length ring
      in if k = 0 then s
         else (let r = rotate (k - n mod k) ring in zip (map fst s) (r @ [hd r])))"

text \<open>
  Modelled from the spec: the absent \<open>splitCommand\<close>. A split at \<open>cmdIdx\<close> with
  \<open>ts\<close> puts one new command per fraction in front of the command; the subdivision
  formula is outside the spec, and the new commands here repeat the split one.
\<close>

definition simpleSplit :: "int \<Rightarrow> rat list \<Rightarrow> simpleCmd list \<Rightarrow> simpleCmd list" where
  "simpleSplit cmdIdx ts s =
     (if 0 \<le> cmdIdx \<and> nat cmdIdx < length s
      then take (nat cmdIdx) s @ replicate (length ts) (s ! nat cmdIdx) @ drop (nat cmdIdx) s
      else s)"

text \<open>
  Modelled from the spec: the absent \<open>convertCommand\<close>, which re-expresses a command
  as one of another kind with the same end anchor.
\<close>

definition simpleConvert :: "nat \<Rightarrow> char \<Rightarrow> simpleCmd list \<Rightarrow> simpleCmd list" where
  "simpleConvert cmdIdx ch s = (if cmdIdx < length s then s[cmdIdx := (ch, snd (s ! cmdIdx))] else s)"

text \<open>
  Modelled from the spec: the absent \<open>canConvertTo\<close>, by a capability table in which
  a line can become a quadratic or a cubic curve and a quadratic curve a cubic one; an
  arc converts to nothing and nothing converts to an arc, as in the spec's example of
  a pair that is incompatible in both directions.
\<close>

definition simpleCanConvertTo :: "simpleCmd \<Rightarrow> char \<Rightarrow> bool" where
  "simpleCanConvertTo c ch \<longleftrightarrow>
     (fst c = CHR ''L'' \<and> (ch = CHR ''Q'' \<or> ch = CHR ''C'')) \<or> (fst c = CHR ''Q'' \<and> ch = CHR ''C'')"

text \<open>
  Modelled from the spec: the absent \<open>align\<close> of \<open>NeedlemanWunsch.ts\<close>, a global
  alignment. A cell of the table is the best of a match and the two gaps, the
  backtrace starts at the final corner and prefers the diagonal, and the score is the
  value of that corner. Both functions work on the reversed sequences, the prefixes
  of the table. The gap penalty, which the spec leaves open, is a parameter.
\<close>

fun nwScore :: "('c \<Rightarrow> 'c \<Rightarrow> rat) \<Rightarrow> rat \<Rightarrow> 'c list \<Rightarrow> 'c list \<Rightarrow> rat" where
  "nwScore f gap [] ys = gap * rat_of_nat (length ys)"
| "nwScore f gap (x # xs) [] = gap * rat_of_nat (length (x # xs))"
| "nwScore f gap (x # xs) (y # ys) =
     max (nwScore f gap xs ys + f x y)
       (max (nwScore f gap xs (y # ys) + gap) (nwScore f gap (x # xs) ys + gap))"

fun nwTrace :: "('c \<Rightarrow> 'c \<Rightarrow> rat) \<Rightarrow> rat \<Rightarrow> 'c list \<Rightarrow> 'c list \<Rightarrow> ('c option \<times> 'c option) list" where
  "nwTrace f gap [] [] = []"
| "nwTrace f gap (x # xs) [] = (Some x, None) # nwTrace f gap xs []"
| "nwTrace f gap [] (y # ys) = (None, Some y) # nwTrace f gap [] ys"
| "nwTrace f gap (x # xs) (y # ys) =
     (if nwScore f gap (x # xs) (y # ys) = nwScore f gap xs ys + f x y
      then (Some x, Some y) # nwTrace f gap xs ys
      else if nwScore f gap (x # xs) (y # ys) = nwScore f gap xs (y # ys) + gap
      then (Some x, None) # nwTrace f gap xs (y # ys)
      else (None, Some y) # nwTrace f gap (x # xs) ys)"

text \<open>Modelled from the spec: the absent \<open>align\<close>, with the gap penalty 0.\<close>

definition simpleAlign :: "'c list \<Rightarrow> 'c list \<Rightarrow> ('c \<Rightarrow> 'c \<Rightarrow> rat) \<Rightarrow> ('c, rat) alignment" where
  "simpleAlign a b f =
     (let tr = rev (nwTrace f 0 (rev a) (rev b))
      in \<lparr>alignFrom = map fst tr, alignTo = map snd tr, score = nwScore f 0 (rev a) (rev b)\<rparr>)"

text \<open>
  Modelled from the spec: the instance as a whole. A subpath is closed when it ends
  with a close command; \<open>MathUtil.distance\<close> is the Euclidean distance; the
  constants \<open>MATCH\<close> and \<open>MISMATCH\<close>, which the spec leaves open, are 1 and -1; and
  \<open>PathUtil.sortPathOps\<close> sorts the splits by descending command index.
\<close>

definition simpleEnv :: "(simplePath, simpleCmd list, simpleCmd, rat, rat) env" where
  "simpleEnv =
     \<lparr>numSubPaths = length,
      getSubPath = (\<lambda>p i. if i < length p then Some (p ! i) else None),
      getCommands = (\<lambda>s. s),
      isClosed = (\<lambda>s. s \<noteq> [] \<and> fst (last s) = CHR ''Z''),
      reverseSubPath = (\<lambda>i. updateSubPath simpleReverse i),
      shiftSubPathBack = (\<lambda>i n. updateSubPath (simpleShiftBack n) i),
      splitCommand = (\<lambda>i cmdIdx ts. updateSubPath (simpleSplit cmdIdx ts) i),
      convertCommand = (\<lambda>i cmdIdx ch. updateSubPath (simpleConvert cmdIdx ch) i),
      getSvgChar = fst,
      canConvertTo = simpleCanConvertTo,
      getEnd = snd,
      distance = (\<lambda>a b. \<bar>a - b\<bar>),
      MATCH = 1,
      MISMATCH = - 1,
      align = simpleAlign,
      sortPathOps = (\<lambda>ops. rev (sort_key opCmdIdx ops))\<rparr>"

section \<open>Definitions for the statements\<close>

text \<open>
  What the spec says of a run of coordinate pairs after \<open>M\<close>: the first pair is a
  move, every further pair a line from the pair before it.
\<close>

fun lineRun :: "'n point \<Rightarrow> 'n point list \<Rightarrow> 'n command list" where
  "lineRun p [] = []"
| "lineRun p (q # qs) = LineCommand (Some p) q # lineRun q qs"

fun moveRun :: "'n point option \<Rightarrow> 'n point list \<Rightarrow> 'n command list" where
  "moveRun cur [] = []"
| "moveRun cur (p # ps) = MoveCommand cur p # lineRun p ps"

text \<open>
  The coordinate pairs of a repetition run, read with the tokenizer of the parser as
  absolute points: one more pair while the next token is a value. The result is the
  points of the run and the text that follows it, or the error of a pair that is not
  complete.
\<close>

function readPairs :: "'n numbers \<Rightarrow> string \<Rightarrow> error + ('n point list \<times> string)" where
  "readPairs N s =
     (case advanceToNextToken s of
        (Value, r) \<Rightarrow>
          (case consumePoint N False None r of
             Inl e \<Rightarrow> Inl e
           | Inr (p, s1) \<Rightarrow>
               (case readPairs N s1 of
                  Inl e \<Rightarrow> Inl e
                | Inr (ps, rest) \<Rightarrow> Inr (p # ps, rest)))
      | (_, r) \<Rightarrow> Inr ([], r))"
  by pat_completeness auto
termination
proof (relation "measure (\<lambda>(N, s). length s)", goal_cases)
  case 1
  show ?case by simp
next
  case (2 N s x1 r x2 p s1)
  from consumePoint_shorter [OF 2(3) [unfolded 2(4) [symmetric]]]
    advanceToNextToken_length [of s] 2(1) [symmetric]
  show ?case by simp
qed

declare readPairs.simps [simp del]

text \<open>
  The state of the parser after a first \<open>M\<close> command with the points \<open>ps\<close>, in front
  of the text \<open>rest\<close>: the current point is the last point of the run, the last move
  point its first point.
\<close>

definition afterRun :: "'n point list \<Rightarrow> string \<Rightarrow> 'n pstate" where
  "afterRun ps rest =
     \<lparr>input = rest, currentPoint = (if ps = [] then None else Some (last ps)),
      currentControlPoint = None,
      lastMovePoint = (if ps = [] then None else Some (hd ps)),
      commands = moveRun None ps\<rparr>"

text \<open>
  The state of the parser after \<open>M0,0\<close>, in front of the arguments of a smooth
  cubic command.
\<close>

definition afterMove :: "num pstate" where
  "afterMove = \<lparr>input = ''1,2 3,4'', currentPoint = Some (Point (Num 0) (Num 0)),
       currentControlPoint = None, lastMovePoint = Some (Point (Num 0) (Num 0)),
       commands = [MoveCommand None (Point (Num 0) (Num 0))]\<rparr>"

text \<open>
  What the number functions of JavaScript give on the two numbers \<open>0\<close> and
  \<open>1e21\<close>: \<open>toFixed(3)\<close> and the conversion to a string write a number from
  \<open>1e21\<close> on with an exponent and a plus sign.
\<close>

definition sampleToFixed :: "num \<Rightarrow> nat \<Rightarrow> string" where
  "sampleToFixed n d = (if n = Num 0 then ''0.000'' else ''1e+21'')"

definition sampleToString :: "num \<Rightarrow> string" where
  "sampleToString n = (if n = Num 0 then ''0'' else ''1e+21'')"

text \<open>
  The shifts that the callback of \<open>_.flatMap\<close> adds for a path whose subpath is
  closed, and the candidate set in the words of the spec: the original, its reversal
  and, for a closed subpath, every cyclic rotation of the reversal.
\<close>

definition rotationsOf :: "('p, 's, 'c, 'pt, 'r) env \<Rightarrow> nat \<Rightarrow> 'p \<Rightarrow> 'p set" where
  "rotationsOf E subIdx p =
     (case getSubPath E p subIdx of
        None \<Rightarrow> {}
      | Some s \<Rightarrow>
          if isClosed E s
          then (\<lambda>i. shiftSubPathBack E subIdx i p) ` {1 ..< length (getCommands E s) - 1}
          else {})"

definition specCandidates :: "('p, 's, 'c, 'pt, 'r) env \<Rightarrow> nat \<Rightarrow> 'p \<Rightarrow> 'p set" where
  "specCandidates E subIdx fromPath =
     (let reversal = reverseSubPath E subIdx fromPath
      in {fromPath, reversal} \<union>
         (case getSubPath E fromPath subIdx of
            None \<Rightarrow> {}
          | Some s \<Rightarrow>
              if isClosed E s then range (\<lambda>i. shiftSubPathBack E subIdx i reversal) else {}))"

text \<open>
  The kind letters of a subpath; the assumption on the absent \<open>convertCommand\<close>
  that it sets the kind of the command it converts and no other; a pair of commands of
  one kind or with a conversion in one direction; and the kinds of a pair after the
  pairwise conversion of \<open>autoConvert\<close>.
\<close>

definition kindsAt :: "('p, 's, 'c, 'pt, 'r) env \<Rightarrow> 'p \<Rightarrow> nat \<Rightarrow> char list option" where
  "kindsAt E p subIdx =
     (case getSubPath E p subIdx of
        None \<Rightarrow> None
      | Some s \<Rightarrow> Some (map (getSvgChar E) (getCommands E s)))"

definition convertSetsKind :: "('p, 's, 'c, 'pt, 'r) env \<Rightarrow> bool" where
  "convertSetsKind E \<longleftrightarrow>
     (\<forall>p subIdx cmdIdx ch ks. kindsAt E p subIdx = Some ks \<longrightarrow> cmdIdx < length ks \<longrightarrow>
        kindsAt E (convertCommand E subIdx cmdIdx ch p) subIdx = Some (ks[cmdIdx := ch]))"

definition compatible :: "('p, 's, 'c, 'pt, 'r) env \<Rightarrow> 'c \<Rightarrow> 'c \<Rightarrow> bool" where
  "compatible E a b \<longleftrightarrow>
     getSvgChar E a = getSvgChar E b \<or> canConvertTo E a (getSvgChar E b)
     \<or> canConvertTo E b (getSvgChar E a)"

definition fromKind :: "('p, 's, 'c, 'pt, 'r) env \<Rightarrow> 'c \<Rightarrow> 'c \<Rightarrow> char" where
  "fromKind E a b =
     (if getSvgChar E a \<noteq> getSvgChar E b \<and> canConvertTo E a (getSvgChar E b)
      then getSvgChar E b else getSvgChar E a)"

definition toKind :: "('p, 's, 'c, 'pt, 'r) env \<Rightarrow> 'c \<Rightarrow> 'c \<Rightarrow> char" where
  "toKind E a b =
     (if getSvgChar E a \<noteq> getSvgChar E b \<and> \<not> canConvertTo E a (getSvgChar E b)
         \<and> canConvertTo E b (getSvgChar E a)
      then getSvgChar E a else getSvgChar E b)"

text \<open>
  The number of commands of the subpath of a path at an index, and the commands of one
  side of an alignment, its gaps left out.
\<close>

definition commandCount :: "('p, 's, 'c, 'pt, 'r) env \<Rightarrow> 'p \<Rightarrow> nat \<Rightarrow> nat option" where
  "commandCount E p subIdx =
     (case getSubPath E p subIdx of
        None \<Rightarrow> None
      | Some s \<Rightarrow> Some (length (getCommands E s)))"

fun withoutGaps :: "'c option list \<Rightarrow> 'c list" where
  "withoutGaps [] = []"
| "withoutGaps (None # as) = withoutGaps as"
| "withoutGaps (Some c # as) = c # withoutGaps as"

text \<open>
  Assumptions on the absent collaborators, in the words of the spec. Reversing and
  shifting a subpath keep its number of commands. A split of a command that is not
  the first one, with \<open>k\<close> fractions, puts \<open>k\<close> more commands into the subpath.
  The two sides of an alignment have one length, and each side is the sequence it
  aligns with gaps put in. \<open>PathUtil.sortPathOps\<close> reorders the operations and
  neither drops nor adds one.
\<close>

definition keepsCount :: "('p, 's, 'c, 'pt, 'r) env \<Rightarrow> bool" where
  "keepsCount E \<longleftrightarrow>
     (\<forall>i p. commandCount E (reverseSubPath E i p) i = commandCount E p i)
   \<and> (\<forall>i n p. commandCount E (shiftSubPathBack E i n p) i = commandCount E p i)"

definition splitAdds :: "('p, 's, 'c, 'pt, 'r) env \<Rightarrow> bool" where
  "splitAdds E \<longleftrightarrow>
     (\<forall>i k ts p n. commandCount E p i = Some n \<longrightarrow> 1 \<le> k \<longrightarrow> k < int n \<longrightarrow>
        commandCount E (splitCommand E i k ts p) i = Some (n + length ts))"

definition alignFillsGaps :: "('p, 's, 'c, 'pt, 'r) env \<Rightarrow> bool" where
  "alignFillsGaps E \<longleftrightarrow>
     (\<forall>a b f. length (alignFrom (align E a b f)) = length (alignTo (align E a b f))
        \<and> withoutGaps (alignFrom (align E a b f)) = a
        \<and> withoutGaps (alignTo (align E a b f)) = b)"

definition sortPermutes :: "('p, 's, 'c, 'pt, 'r) env \<Rightarrow> bool" where
  "sortPermutes E \<longleftrightarrow> (\<forall>ops. mset (sortPathOps E ops) = mset ops)"

text \<open>
  The assumption on the absent mutator that an operation on the subpath at one index
  leaves the subpath at every other index as it is.
\<close>

definition framed :: "('p, 's, 'c, 'pt, 'r) env \<Rightarrow> bool" where
  "framed E \<longleftrightarrow>
     (\<forall>i j p. i \<noteq> j \<longrightarrow> getSubPath E (reverseSubPath E i p) j = getSubPath E p j)
   \<and> (\<forall>i n j p. i \<noteq> j \<longrightarrow> getSubPath E (shiftSubPathBack E i n p) j = getSubPath E p j)
   \<and> (\<forall>i k ts j p. i \<noteq> j \<longrightarrow> getSubPath E (splitCommand E i k ts p) j = getSubPath E p j)
   \<and> (\<forall>i k ch j p. i \<noteq> j \<longrightarrow> getSubPath E (convertCommand E i k ch p) j = getSubPath E p j)"

text \<open>
  Concrete alignments and paths for the instance above.
\<close>

definition tieInfos :: "(nat \<times> (unit, rat) alignment) list" where
  "tieInfos = [(0, \<lparr>alignFrom = [], alignTo = [], score = 1\<rparr>),
               (1, \<lparr>alignFrom = [], alignTo = [], score = 1\<rparr>),
               (2, \<lparr>alignFrom = [], alignTo = [], score = 0\<rparr>)]"

definition triangle :: simplePath where
  "triangle = [[(CHR ''M'', 0), (CHR ''L'', 1), (CHR ''L'', 2), (CHR ''Z'', 0)]]"

definition reversedTriangle :: simplePath where
  "reversedTriangle = [[(CHR ''M'', 0), (CHR ''L'', 2), (CHR ''L'', 1), (CHR ''Z'', 0)]]"

definition shiftedTriangle :: simplePath where
  "shiftedTriangle = [[(CHR ''M'', 2), (CHR ''L'', 0), (CHR ''L'', 1), (CHR ''Z'', 2)]]"

definition triangleCandidates :: "simplePath list" where
  "triangleCandidates =
     [triangle, shiftedTriangle,
      [[(CHR ''M'', 1), (CHR ''L'', 2), (CHR ''L'', 0), (CHR ''Z'', 1)]],
      reversedTriangle,
      [[(CHR ''M'', 1), (CHR ''L'', 0), (CHR ''L'', 2), (CHR ''Z'', 1)]],
      [[(CHR ''M'', 2), (CHR ''L'', 1), (CHR ''L'', 0), (CHR ''Z'', 2)]]]"

definition fourLines :: simplePath where
  "fourLines = [[(CHR ''M'', 0), (CHR ''L'', 1), (CHR ''L'', 2), (CHR ''L'', 3)]]"

definition twoCurves :: simplePath where
  "twoCurves = [[(CHR ''M'', 0), (CHR ''Q'', 1), (CHR ''Q'', 3)]]"

definition twoSubPaths :: simplePath where
  "twoSubPaths = [[(CHR ''M'', 0), (CHR ''L'', 1)], [(CHR ''M'', 5), (CHR ''L'', 6)]]"

definition oneSubPath :: simplePath where
  "oneSubPath = [[(CHR ''M'', 0), (CHR ''Q'', 1), (CHR ''Q'', 2)]]"

section \<open>The parser\<close>

subsection \<open>The smooth cubic command without a control point\<close>

text \<open>
  Claim C5, amended. When \<open>parseCommands\<close> processes an \<open>S\<close> or \<open>s\<close> command
  and \<open>currentControlPoint\<close> is not set, the first control point of the cubic
  command it emits is the command's own second control point (\<open>cp1 = cp2\<close>), not its
  end point. This holds for every record of numbers.
\<close>

theorem stepS_without_control_point:
  assumes "currentControlPoint st = None"
    and "consumePoint N relative (currentPoint st) (input st) = Inr (cp2, s1)"
    and "consumePoint N relative (currentPoint st) s1 = Inr (end, s2)"
  shows "\<exists>st'. stepS N relative st = Inr st'
           \<and> commands st' = commands st @ [BezierCurveCommand (currentPoint st) cp2 cp2 end]
           \<and> currentControlPoint st' = Some cp2 \<and> currentPoint st' = Some end"
  using assms by (simp add: stepS_def push_def)

text \<open>
  The theorem at the state after \<open>M0,0\<close> and the arguments \<open>1,2 3,4\<close>.
\<close>

theorem stepS_without_control_point_witness:
  "\<exists>st'. stepS decimalNumbers False afterMove = Inr st'
     \<and> commands st' = [MoveCommand None (Point (Num 0) (Num 0)),
          BezierCurveCommand (Some (Point (Num 0) (Num 0))) (Point (Num 1) (Num 2))
            (Point (Num 1) (Num 2)) (Point (Num 3) (Num 4))]"
proof -
  have h1: "currentControlPoint afterMove = None" by (simp add: afterMove_def)
  have h2: "consumePoint decimalNumbers False (currentPoint afterMove) (input afterMove)
              = Inr (Point (Num 1) (Num 2), '' 3,4'')"
    by code_simp
  have h3: "consumePoint decimalNumbers False (currentPoint afterMove) '' 3,4''
              = Inr (Point (Num 3) (Num 4), [])"
    by code_simp
  show ?thesis
    using stepS_without_control_point [OF h1 h2 h3] by (auto simp: afterMove_def)
qed

text \<open>
  Claim C5 as stated fails: in \<open>M0,0 S1,2 3,4\<close> the first control point is
  \<open>(1,2)\<close>, the end point is \<open>(3,4)\<close>.
\<close>

theorem smooth_cubic_control_point_counterexample:
  "parseCommands ''M0,0 S1,2 3,4''
     = Inr [MoveCommand None (Point (Num 0) (Num 0)),
            BezierCurveCommand (Some (Point (Num 0) (Num 0))) (Point (Num 1) (Num 2))
              (Point (Num 1) (Num 2)) (Point (Num 3) (Num 4))]
   \<and> Point (Num 1) (Num 2) \<noteq> Point (Num 3) (Num 4)"
  by code_simp

subsection \<open>A path that starts with a move\<close>

lemma consumePoint_absolute: "consumePoint N False cur s = consumePoint N False None s"
  by (simp add: consumePoint_def split: sum.splits prod.splits)

lemma moveLoop_lines:
  "currentPoint st = Some q \<Longrightarrow> input st = s \<Longrightarrow>
   moveLoop N False False st
     = (case readPairs N s of
          Inl e \<Rightarrow> Inl e
        | Inr (ps, rest) \<Rightarrow>
            Inr (st\<lparr>input := rest,
                    currentControlPoint := (if ps = [] then currentControlPoint st else None),
                    currentPoint := Some (last (q # ps)),
                    commands := commands st @ lineRun q ps\<rparr>))"
proof (induction N s arbitrary: st q rule: readPairs.induct)
  case (1 N s)
  obtain t r where adv: "advanceToNextToken s = (t, r)"
    by (cases "advanceToNextToken s")
  show ?case
  proof (cases "t = Value")
    case False
    have "moveLoop N False False st = Inr (st\<lparr>input := r\<rparr>)"
      using False adv "1.prems"(2)
      by (subst moveLoop.simps) (auto split: token.splits)
    moreover have "readPairs N s = Inr ([], r)"
      using False adv by (subst readPairs.simps) (auto split: token.splits)
    ultimately show ?thesis using "1.prems"(1) by simp
  next
    case True
    show ?thesis
    proof (cases "consumePoint N False None r")
      case (Inl e)
      have "moveLoop N False False st = Inl e"
        using True adv "1.prems"(2) Inl consumePoint_absolute [of N "currentPoint st" r]
        by (subst moveLoop.simps) (simp add: stepM_def)
      moreover have "readPairs N s = Inl e"
        using True adv Inl by (subst readPairs.simps) simp
      ultimately show ?thesis by simp
    next
      case (Inr a)
      obtain p s1 where a: "a = (p, s1)" by (cases a)
      define st1 where "st1 = (push (LineCommand (Some q) p) (st\<lparr>input := r\<rparr>))
          \<lparr>input := s1, currentControlPoint := None, currentPoint := Some p\<rparr>"
      have cp: "consumePoint N False None r = Inr (p, s1)" using Inr a by simp
      have step: "moveLoop N False False st = moveLoop N False False st1"
        using True adv "1.prems" cp consumePoint_absolute [of N "currentPoint st" r]
        by (subst moveLoop.simps) (simp add: stepM_def st1_def)
      have c1: "currentPoint st1 = Some p" and i1: "input st1 = s1"
        by (simp_all add: st1_def push_def)
      have ih: "moveLoop N False False st1
          = (case readPairs N s1 of
               Inl e \<Rightarrow> Inl e
             | Inr (ps, rest) \<Rightarrow>
                 Inr (st1\<lparr>input := rest,
                         currentControlPoint := (if ps = [] then currentControlPoint st1 else None),
                         currentPoint := Some (last (p # ps)),
                         commands := commands st1 @ lineRun p ps\<rparr>))"
        using "1.IH" [OF adv [symmetric] True cp refl c1 i1] .
      have rp: "readPairs N s
          = (case readPairs N s1 of Inl e \<Rightarrow> Inl e | Inr (ps, rest) \<Rightarrow> Inr (p # ps, rest))"
        using True adv cp by (subst readPairs.simps) simp
      show ?thesis
        unfolding step ih rp
        by (auto simp: st1_def push_def split: sum.splits)
    qed
  qed
qed

lemma moveLoop_first:
  assumes "input st = s"
  shows "moveLoop N False True st
     = (case readPairs N s of
          Inl e \<Rightarrow> Inl e
        | Inr (ps, rest) \<Rightarrow>
            Inr (if ps = [] then st\<lparr>input := rest\<rparr>
                 else st\<lparr>input := rest, currentControlPoint := None,
                         currentPoint := Some (last ps), lastMovePoint := Some (hd ps),
                         commands := commands st @ moveRun (currentPoint st) ps\<rparr>))"
proof -
  obtain t r where adv: "advanceToNextToken s = (t, r)"
    by (cases "advanceToNextToken s")
  show ?thesis
  proof (cases "t = Value")
    case False
    have "moveLoop N False True st = Inr (st\<lparr>input := r\<rparr>)"
      using False adv assms by (subst moveLoop.simps) (auto split: token.splits)
    moreover have "readPairs N s = Inr ([], r)"
      using False adv by (subst readPairs.simps) (auto split: token.splits)
    ultimately show ?thesis by simp
  next
    case True
    show ?thesis
    proof (cases "consumePoint N False None r")
      case (Inl e)
      have "moveLoop N False True st = Inl e"
        using True adv assms Inl consumePoint_absolute [of N "currentPoint st" r]
        by (subst moveLoop.simps) (simp add: stepM_def)
      moreover have "readPairs N s = Inl e"
        using True adv Inl by (subst readPairs.simps) simp
      ultimately show ?thesis by simp
    next
      case (Inr a)
      obtain p s1 where a: "a = (p, s1)" by (cases a)
      define st1 where "st1 = ((push (MoveCommand (currentPoint st) p) (st\<lparr>input := r\<rparr>))
            \<lparr>lastMovePoint := Some p\<rparr>)
          \<lparr>input := s1, currentControlPoint := None, currentPoint := Some p\<rparr>"
      have cp: "consumePoint N False None r = Inr (p, s1)" using Inr a by simp
      have step: "moveLoop N False True st = moveLoop N False False st1"
        using True adv assms cp consumePoint_absolute [of N "currentPoint st" r]
        by (subst moveLoop.simps) (simp add: stepM_def st1_def)
      have c1: "currentPoint st1 = Some p" and i1: "input st1 = s1"
        by (simp_all add: st1_def push_def)
      have rp: "readPairs N s
          = (case readPairs N s1 of Inl e \<Rightarrow> Inl e | Inr (ps, rest) \<Rightarrow> Inr (p # ps, rest))"
        using True adv cp by (subst readPairs.simps) simp
      show ?thesis
        unfolding step moveLoop_lines [OF c1 i1] rp
        by (auto simp: st1_def push_def split: sum.splits)
    qed
  qed
qed

text \<open>The commands of the parser's state only grow.\<close>

lemma stepM_extends:
  "stepM N rel first st = Inr st' \<Longrightarrow> \<exists>more. commands st' = commands st @ more"
  by (auto simp: stepM_def push_def dest!: bindE_Inr)

lemma loopBody_extends:
  "loopBody N k rel st = Inr st' \<Longrightarrow> \<exists>more. commands st' = commands st @ more"
  by (cases k)
     (auto simp: stepC_def stepS_def stepQ_def stepT_def stepL_def stepH_def stepV_def stepA_def
        push_def Let_def dest!: bindE_Inr)

lemma valueLoop_extends:
  "valueLoop N k rel st = Inr st' \<Longrightarrow> \<exists>more. commands st' = commands st @ more"
proof (induction N k rel st rule: valueLoop.induct)
  case (1 N k relative st)
  obtain t r where adv: "advanceToNextToken (input st) = (t, r)"
    by (cases "advanceToNextToken (input st)")
  show ?case
  proof (cases "t = Value")
    case True
    with "1.prems" adv obtain st1 where
      b: "loopBody N k relative (st\<lparr>input := r\<rparr>) = Inr st1"
      and l: "valueLoop N k relative st1 = Inr st'"
      by (subst (asm) valueLoop.simps) (auto split: sum.splits)
    from "1.IH" [OF adv [symmetric] True b l] loopBody_extends [OF b]
    show ?thesis by auto
  next
    case False
    with "1.prems" adv have "st' = st\<lparr>input := r\<rparr>"
      by (subst (asm) valueLoop.simps) (auto split: token.splits)
    then show ?thesis by simp
  qed
qed

lemma moveLoop_extends:
  "moveLoop N rel first st = Inr st' \<Longrightarrow> \<exists>more. commands st' = commands st @ more"
proof (induction N rel first st rule: moveLoop.induct)
  case (1 N relative isFirstPoint st)
  obtain t r where adv: "advanceToNextToken (input st) = (t, r)"
    by (cases "advanceToNextToken (input st)")
  show ?case
  proof (cases "t = Value")
    case True
    with "1.prems" adv obtain st1 where
      b: "stepM N relative isFirstPoint (st\<lparr>input := r\<rparr>) = Inr st1"
      and l: "moveLoop N relative False st1 = Inr st'"
      by (subst (asm) moveLoop.simps) (auto split: sum.splits)
    from "1.IH" [OF adv [symmetric] True b l] stepM_extends [OF b]
    show ?thesis by auto
  next
    case False
    with "1.prems" adv have "st' = st\<lparr>input := r\<rparr>"
      by (subst (asm) moveLoop.simps) (auto split: token.splits)
    then show ?thesis by simp
  qed
qed

lemma switchCommand_extends:
  "switchCommand N c rel st = Inr st' \<Longrightarrow> \<exists>more. commands st' = commands st @ more"
  by (cases "caseOf c")
     (auto simp: switchCommand_def runCase_def push_def split: if_splits
        dest: valueLoop_extends moveLoop_extends)

lemma parseLoop_extends:
  "parseLoop N st = Inr cmds \<Longrightarrow> \<exists>more. cmds = commands st @ more"
proof (induction N st rule: parseLoop.induct)
  case (1 N st)
  show ?case
  proof (cases "input st = []")
    case True
    with "1.prems" show ?thesis by (subst (asm) parseLoop.simps) simp
  next
    case False
    with "1.prems" obtain c rel r st1 where
      cc: "consumeCommand (input st) = Inr (c, rel, r)"
      and sw: "switchCommand N c rel (st\<lparr>input := r\<rparr>) = Inr st1"
      and l: "parseLoop N st1 = Inr cmds"
      by (subst (asm) parseLoop.simps) (auto split: sum.splits)
    from "1.IH" [OF False cc refl refl sw l] switchCommand_extends [OF sw]
    show ?thesis by auto
  qed
qed

text \<open>The command letter that \<open>consumeCommand_\<close> returns tells whether it is relative.\<close>

lemma advance_command:
  "advanceToNextToken s = (t, c # r) \<Longrightarrow>
   (t = RelativeCommand \<longleftrightarrow> is_lower c) \<and> (t = AbsoluteCommand \<longrightarrow> is_upper c)"
  by (induction s) (auto split: if_splits)

lemma consumeCommand_relative:
  assumes "consumeCommand s = Inr (c, rel, r)"
  shows "rel \<longleftrightarrow> is_lower c"
proof -
  obtain t s1 where adv: "advanceToNextToken s = (t, s1)"
    by (cases "advanceToNextToken s")
  from assms adv have "s1 = c # r" and "t = RelativeCommand \<or> t = AbsoluteCommand"
    and "rel \<longleftrightarrow> t = RelativeCommand"
    by (auto simp: consumeCommand_def split: token.splits list.splits)
  with advance_command [of s t c r] adv show ?thesis by auto
qed

lemma first_command:
  assumes "consumeCommand s = Inr (c, rel, body)"
  shows "parseCommandsWith N s
     = bindE (switchCommand N c rel ((initState s)\<lparr>input := body\<rparr>)) (parseLoop N)"
proof -
  from assms have "s \<noteq> []" by (auto simp: consumeCommand_def)
  then show ?thesis
    unfolding parseCommandsWith_def
    by (subst parseLoop.simps) (simp add: initState_def assms split: sum.splits)
qed

text \<open>
  Claim C7, amended. When the first command of the path string is an upper-case
  \<open>M\<close>, after any separators, \<open>parseCommands\<close> reads the coordinate pairs that follow
  as absolute points, emits the first pair as a move to that point and every further
  pair of the run as a line from the point before it, and goes on with the text after
  the run, where the current point is the last point of the run: it succeeds exactly
  when every pair of the run is complete and the rest is parsed, what it returns
  starts with these commands, and these are all it returns when the run ends the
  string. When the first command is a lower-case \<open>m\<close>, no
  current point is set and \<open>parseCommands\<close> throws
  \<open>Current point must be set for a relative command\<close>. This holds for every string
  and every record of numbers.
\<close>

theorem parseCommands_first_move:
  "(consumeCommand s = Inr (CHR ''M'', rel, body) \<longrightarrow>
      parseCommandsWith N s
        = bindE (readPairs N body) (\<lambda>(ps, rest). parseLoop N (afterRun ps rest))
      \<and> (\<forall>ps. readPairs N body = Inr (ps, []) \<longrightarrow>
            parseCommandsWith N s = Inr (moveRun None ps))
      \<and> (\<forall>cmds. parseCommandsWith N s = Inr cmds \<longrightarrow>
            (\<exists>ps rest more. readPairs N body = Inr (ps, rest)
               \<and> cmds = moveRun None ps @ more)))
   \<and> (consumeCommand s = Inr (CHR ''m'', rel, body) \<longrightarrow>
        parseCommandsWith N s
          = Inl (Error ''Current point must be set for a relative command''))"
proof (intro conjI impI)
  assume cc: "consumeCommand s = Inr (CHR ''M'', rel, body)"
  from consumeCommand_relative [OF cc] have rel: "rel = False"
    by (simp add: is_lower_def)
  let ?st0 = "(initState s :: 'a pstate)\<lparr>input := body\<rparr>"
  have sw: "switchCommand N (CHR ''M'') rel ?st0 = moveLoop N False True ?st0"
    by (simp add: switchCommand_def caseOf_def rel)
  have ml: "moveLoop N False True ?st0
      = (case readPairs N body of
           Inl e \<Rightarrow> Inl e
         | Inr (ps, rest) \<Rightarrow> Inr (afterRun ps rest))"
    unfolding moveLoop_first [of ?st0 body N, simplified]
    by (auto simp: initState_def afterRun_def split: sum.splits)
  show eq: "parseCommandsWith N s
      = bindE (readPairs N body) (\<lambda>(ps, rest). parseLoop N (afterRun ps rest))"
    unfolding first_command [OF cc] sw ml by (auto split: sum.splits)
  show "\<forall>ps. readPairs N body = Inr (ps, []) \<longrightarrow>
      parseCommandsWith N s = Inr (moveRun None ps)"
    unfolding eq by (subst parseLoop.simps) (simp add: afterRun_def)
  show "\<forall>cmds. parseCommandsWith N s = Inr cmds \<longrightarrow>
      (\<exists>ps rest more. readPairs N body = Inr (ps, rest) \<and> cmds = moveRun None ps @ more)"
  proof (intro allI impI)
    fix cmds
    assume "parseCommandsWith N s = Inr cmds"
    with eq have "bindE (readPairs N body) (\<lambda>(ps, rest). parseLoop N (afterRun ps rest))
        = Inr cmds"
      by simp
    from bindE_Inr [OF this] obtain ps rest where rp: "readPairs N body = Inr (ps, rest)"
      and pl: "parseLoop N (afterRun ps rest) = Inr cmds"
      by auto
    from parseLoop_extends [OF pl] obtain more where "cmds = moveRun None ps @ more"
      by (auto simp: afterRun_def)
    with rp show "\<exists>ps rest more. readPairs N body = Inr (ps, rest) \<and> cmds = moveRun None ps @ more"
      by blast
  qed
next
  assume cc: "consumeCommand s = Inr (CHR ''m'', rel, body)"
  from consumeCommand_relative [OF cc] have rel: "rel = True"
    by (simp add: is_lower_def)
  show "parseCommandsWith N s
      = Inl (Error ''Current point must be set for a relative command'')"
    unfolding first_command [OF cc]
    by (simp add: switchCommand_def caseOf_def rel initState_def)
qed

text \<open>
  The theorem at \<open> M1-2 3,4L5,5\<close>, a path with a separator in front, a pair with
  no separator between its numbers and a further command, and at \<open>m 1 2\<close>.
\<close>

theorem parseCommands_first_move_witness:
  "parseCommands '' M1-2 3,4L5,5''
     = Inr [MoveCommand None (Point (Num 1) (Num (- 2))),
            LineCommand (Some (Point (Num 1) (Num (- 2)))) (Point (Num 3) (Num 4)),
            LineCommand (Some (Point (Num 3) (Num 4))) (Point (Num 5) (Num 5))]
   \<and> readPairs decimalNumbers ''1-2 3,4L5,5''
     = Inr ([Point (Num 1) (Num (- 2)), Point (Num 3) (Num 4)], ''L5,5'')
   \<and> parseCommands ''m 1 2''
     = Inl (Error ''Current point must be set for a relative command'')"
proof -
  have c1: "consumeCommand '' M1-2 3,4L5,5'' = Inr (CHR ''M'', False, ''1-2 3,4L5,5'')"
    by code_simp
  have c2: "consumeCommand ''m 1 2'' = Inr (CHR ''m'', True, '' 1 2'')"
    by code_simp
  have r: "readPairs decimalNumbers ''1-2 3,4L5,5''
      = Inr ([Point (Num 1) (Num (- 2)), Point (Num 3) (Num 4)], ''L5,5'')"
    by code_simp
  have l: "parseLoop decimalNumbers
             (afterRun [Point (Num 1) (Num (- 2)), Point (Num 3) (Num 4)] ''L5,5'')
      = Inr [MoveCommand None (Point (Num 1) (Num (- 2))),
            LineCommand (Some (Point (Num 1) (Num (- 2)))) (Point (Num 3) (Num 4)),
            LineCommand (Some (Point (Num 3) (Num 4))) (Point (Num 5) (Num 5))]"
    by code_simp
  from parseCommands_first_move [of "'' M1-2 3,4L5,5''" False "''1-2 3,4L5,5''" decimalNumbers]
    parseCommands_first_move [of "''m 1 2''" True "'' 1 2''" decimalNumbers]
  show ?thesis
    unfolding parseCommands_def by (simp add: c1 c2 r l)
qed

text \<open>
  Claim C7 as stated fails: a path that starts with \<open>m\<close> is not parsed.
\<close>

theorem relative_first_move_counterexample:
  "parseCommands ''m1,2 3,4''
     = Inl (Error ''Current point must be set for a relative command'')"
  by code_simp

subsection \<open>The control point after a close command\<close>

text \<open>
  Claim C8 fails on the code. The \<open>Z\<close> case does not clear
  \<open>currentControlPoint\<close>, as the cases \<open>M\<close>, \<open>L\<close>, \<open>H\<close>, \<open>V\<close> and \<open>A\<close>
  do: in \<open>M0,0 C1,1 2,2 3,3 Z S5,5 6,6\<close> the smooth cubic command after the close
  gets the first control point \<open>(4,4)\<close>, the reflection of \<open>(2,2)\<close> through
  \<open>(3,3)\<close>, where a cleared slot gives \<open>(5,5)\<close>, as it does after a line
  command in place of the close.
\<close>

theorem close_keeps_control_point:
  "parseCommands ''M0,0 C1,1 2,2 3,3 Z S5,5 6,6''
     = Inr [MoveCommand None (Point (Num 0) (Num 0)),
            BezierCurveCommand (Some (Point (Num 0) (Num 0))) (Point (Num 1) (Num 1))
              (Point (Num 2) (Num 2)) (Point (Num 3) (Num 3)),
            ClosePathCommand (Some (Point (Num 3) (Num 3))) (Some (Point (Num 0) (Num 0))),
            BezierCurveCommand (Some (Point (Num 3) (Num 3))) (Point (Num 4) (Num 4))
              (Point (Num 5) (Num 5)) (Point (Num 6) (Num 6))]
   \<and> parseCommands ''M0,0 C1,1 2,2 3,3 L4,4 S5,5 6,6''
     = Inr [MoveCommand None (Point (Num 0) (Num 0)),
            BezierCurveCommand (Some (Point (Num 0) (Num 0))) (Point (Num 1) (Num 1))
              (Point (Num 2) (Num 2)) (Point (Num 3) (Num 3)),
            LineCommand (Some (Point (Num 3) (Num 3))) (Point (Num 4) (Num 4)),
            BezierCurveCommand (Some (Point (Num 4) (Num 4))) (Point (Num 5) (Num 5))
              (Point (Num 5) (Num 5)) (Point (Num 6) (Num 6))]"
  by code_simp

subsection \<open>Separators at the end of the path string\<close>

text \<open>
  Claim C9 fails on the code. A separator after a final \<open>z\<close> is an error
  (\<open>Expected command\<close>), while the same separator after a final line command is
  skipped.
\<close>

theorem trailing_separator_after_close:
  "parseCommands ''M0,0 L1,1 z''
     = Inr [MoveCommand None (Point (Num 0) (Num 0)),
            LineCommand (Some (Point (Num 0) (Num 0))) (Point (Num 1) (Num 1)),
            ClosePathCommand (Some (Point (Num 1) (Num 1))) (Some (Point (Num 0) (Num 0)))]
   \<and> parseCommands ''M0,0 L1,1 z '' = Inl (Error ''Expected command'')
   \<and> parseCommands ''M0,0 L1,1 ''
     = Inr [MoveCommand None (Point (Num 0) (Num 0)),
            LineCommand (Some (Point (Num 0) (Num 0))) (Point (Num 1) (Num 1))]"
  by code_simp

subsection \<open>Parsing what the serializer writes\<close>

text \<open>
  Claim C1 fails on the code. The scanner of \<open>consumeValue_\<close> reads an exponent
  with a minus sign but stops at a plus sign. JavaScript writes the number
  \<open>1e21\<close> as \<open>1e+21\<close> (\<open>toFixed\<close> and the conversion to a string both do, from
  \<open>1e21\<close> on), so that \<open>commandsToString\<close> turns the commands of \<open>M1e21,0\<close> into
  \<open>M 1e+21 0\<close>, which is not parsed back: the round trip ends in
  \<open>Expected value\<close>.
\<close>

theorem exponent_sign_not_parsed_back:
  assumes "numToString (toNumber (toFixed (Num (10 ^ 21)) 3)) = ''1e+21''"
    and "numToString (toNumber (toFixed (Num 0) 3)) = ''0''"
  shows "\<exists>cmds. parseCommands ''M1e21,0'' = Inr cmds
           \<and> commandsToString toFixed toNumber numToString cmds = ''M 1e+21 0''
           \<and> parseCommands (commandsToString toFixed toNumber numToString cmds)
               = Inl (Error ''Expected value'')"
proof -
  have p: "parseCommands ''M1e21,0'' = Inr [MoveCommand None (Point (Num (10 ^ 21)) (Num 0))]"
    by code_simp
  have s: "commandsToString toFixed toNumber numToString
             [MoveCommand None (Point (Num (10 ^ 21)) (Num 0))] = ''M 1e+21 0''"
    using assms
    by (simp add: commandsToString_def commandTokens_def toUpperCase_def is_lower_def)
  have r: "parseCommands ''M 1e+21 0'' = Inl (Error ''Expected value'')"
    by code_simp
  from p s r show ?thesis by simp
qed

text \<open>
  The theorem at number functions that write \<open>1e21\<close> as JavaScript does.
\<close>

theorem exponent_sign_not_parsed_back_witness:
  "\<exists>cmds. parseCommands ''M1e21,0'' = Inr cmds
     \<and> commandsToString sampleToFixed parseFloat sampleToString cmds = ''M 1e+21 0''
     \<and> parseCommands (commandsToString sampleToFixed parseFloat sampleToString cmds)
         = Inl (Error ''Expected value'')"
proof -
  have a: "sampleToString (parseFloat (sampleToFixed (Num (10 ^ 21)) 3)) = ''1e+21''"
    by code_simp
  have b: "sampleToString (parseFloat (sampleToFixed (Num 0) 3)) = ''0''"
    by code_simp
  from exponent_sign_not_parsed_back [of sampleToString parseFloat sampleToFixed, OF a b]
  show ?thesis .
qed

section \<open>The serializer\<close>

text \<open>
  Claim C6 fails on the code. The arguments of an elliptical arc are not rounded to
  three decimal places: the seven numbers are inserted as one array, which \<open>join\<close>
  writes with the plain text of each number and commas between them. Neither
  \<open>toFixed\<close> nor \<open>toNumber\<close> occurs in the result, as they do for the
  arguments of a line command.
\<close>

theorem arc_arguments_not_rounded:
  "commandsToString toFixed toNumber numToString
     [EllipticalArcCommand (Num 0) (Num 0) (Num (123456 / 100000)) (Num 2) (Num 0) (Num 0)
        (Num 1) (Num 10) (Num 10)]
   = ''A '' @ numToString (Num (123456 / 100000)) @ '','' @ numToString (Num 2) @ '',''
       @ numToString (Num 0) @ '','' @ numToString (Num 0) @ '','' @ numToString (Num 1)
       @ '','' @ numToString (Num 10) @ '','' @ numToString (Num 10)
   \<and> commandsToString toFixed toNumber numToString
     [LineCommand (Some (Point (Num 0) (Num 0))) (Point (Num (123456 / 100000)) (Num 2))]
   = ''L '' @ numToString (toNumber (toFixed (Num (123456 / 100000)) 3)) @ '' ''
       @ numToString (toNumber (toFixed (Num 2) 3))"
  by (simp add: commandsToString_def commandTokens_def toUpperCase_def is_lower_def)

section \<open>The compatibility fixer\<close>

subsection \<open>Alignment selection\<close>

lemma foldl_keepBetter_last_max:
  "L \<noteq> [] \<Longrightarrow>
   \<exists>i < length L. foldl keepBetter (hd L) (tl L) = L ! i
      \<and> (\<forall>j < length L. score (snd (L ! j)) \<le> score (snd (L ! i)))
      \<and> (\<forall>j < length L. i < j \<longrightarrow> score (snd (L ! j)) < score (snd (L ! i)))"
proof (induction L rule: rev_induct)
  case Nil
  then show ?case by simp
next
  case (snoc y ys)
  show ?case
  proof (cases "ys = []")
    case True
    then show ?thesis by simp
  next
    case False
    with snoc.IH obtain i where i: "i < length ys"
      and r: "foldl keepBetter (hd ys) (tl ys) = ys ! i"
      and mx: "\<forall>j < length ys. score (snd (ys ! j)) \<le> score (snd (ys ! i))"
      and lt: "\<forall>j < length ys. i < j \<longrightarrow> score (snd (ys ! j)) < score (snd (ys ! i))"
      by blast
    from False have step: "foldl keepBetter (hd (ys @ [y])) (tl (ys @ [y]))
        = keepBetter (ys ! i) y"
      by (simp add: r)
    show ?thesis
    proof (cases "score (snd (ys ! i)) > score (snd y)")
      case True
      have "foldl keepBetter (hd (ys @ [y])) (tl (ys @ [y])) = (ys @ [y]) ! i"
        using True i by (simp add: step keepBetter_def nth_append)
      moreover have "\<forall>j < length (ys @ [y]).
          score (snd ((ys @ [y]) ! j)) \<le> score (snd ((ys @ [y]) ! i))"
        using True mx i by (auto simp: nth_append less_Suc_eq)
      moreover have "\<forall>j < length (ys @ [y]).
          i < j \<longrightarrow> score (snd ((ys @ [y]) ! j)) < score (snd ((ys @ [y]) ! i))"
        using True lt i by (auto simp: nth_append less_Suc_eq)
      moreover have "i < length (ys @ [y])" using i by simp
      ultimately show ?thesis by blast
    next
      case no: False
      have "foldl keepBetter (hd (ys @ [y])) (tl (ys @ [y])) = (ys @ [y]) ! length ys"
        using no by (simp add: step keepBetter_def)
      moreover have "\<forall>j < length (ys @ [y]).
          score (snd ((ys @ [y]) ! j)) \<le> score (snd ((ys @ [y]) ! length ys))"
      proof (intro allI impI)
        fix j assume "j < length (ys @ [y])"
        then consider "j < length ys" | "j = length ys" by fastforce
        then show "score (snd ((ys @ [y]) ! j)) \<le> score (snd ((ys @ [y]) ! length ys))"
        proof cases
          case 1
          with mx have "score (snd (ys ! j)) \<le> score (snd (ys ! i))" by blast
          with no 1 show ?thesis by (simp add: nth_append)
        next
          case 2
          then show ?thesis by simp
        qed
      qed
      moreover have "\<forall>j < length (ys @ [y]). length ys < j \<longrightarrow>
          score (snd ((ys @ [y]) ! j)) < score (snd ((ys @ [y]) ! length ys))"
        by simp
      moreover have "length ys < length (ys @ [y])" by simp
      ultimately show ?thesis by blast
    qed
  qed
qed

text \<open>
  Claim C3, amended. The candidate that the alignment selection keeps has the highest
  score, and every candidate after it has a strictly lower score: of the candidates
  with the highest score the last one generated wins.
\<close>

theorem bestAlignment_last_of_the_best:
  assumes "infos \<noteq> []"
  shows "\<exists>i < length infos. bestAlignment infos = Inr (infos ! i)
      \<and> (\<forall>j < length infos. score (snd (infos ! j)) \<le> score (snd (infos ! i)))
      \<and> (\<forall>j < length infos. i < j \<longrightarrow> score (snd (infos ! j)) < score (snd (infos ! i)))"
proof -
  from assms have "bestAlignment infos = Inr (foldl keepBetter (hd infos) (tl infos))"
    by (cases infos) (simp_all add: bestAlignment_def)
  with foldl_keepBetter_last_max [OF assms] show ?thesis by simp
qed

text \<open>
  The theorem at three candidates with the scores 1, 1 and 0.
\<close>

theorem bestAlignment_last_of_the_best_witness:
  "\<exists>i < length tieInfos. bestAlignment tieInfos = Inr (tieInfos ! i) \<and> score (snd (tieInfos ! i)) = 1"
proof -
  have h: "tieInfos \<noteq> []" by (simp add: tieInfos_def)
  from bestAlignment_last_of_the_best [OF h] obtain i where i: "i < length tieInfos"
    and b: "bestAlignment tieInfos = Inr (tieInfos ! i)"
    and m: "\<forall>j < length tieInfos. score (snd (tieInfos ! j)) \<le> score (snd (tieInfos ! i))"
    by blast
  have "0 < length tieInfos" by (simp add: tieInfos_def)
  with m have "score (snd (tieInfos ! 0)) \<le> score (snd (tieInfos ! i))" by blast
  then have one: "1 \<le> score (snd (tieInfos ! i))" by (simp add: tieInfos_def)
  from i have "i = 0 \<or> i = 1 \<or> i = 2" by (auto simp: tieInfos_def)
  with one have "score (snd (tieInfos ! i)) = 1" by (auto simp: tieInfos_def)
  with i b show ?thesis by blast
qed

text \<open>
  Claim C3 as stated fails: of two candidates with the same highest score the second
  is kept, not the first.
\<close>

theorem first_seen_tie_counterexample:
  "score (snd (tieInfos ! 0)) = score (snd (tieInfos ! 1))
   \<and> bestAlignment tieInfos = Inr (tieInfos ! 1)
   \<and> tieInfos ! 1 \<noteq> tieInfos ! 0"
  by code_simp

subsection \<open>Candidate generation\<close>

lemma shiftedPaths_set:
  "shiftedPaths E subIdx p = Inr ps \<Longrightarrow> set ps = {p} \<union> rotationsOf E subIdx p"
  by (auto simp: shiftedPaths_def rotationsOf_def split: option.splits if_splits)

text \<open>
  Claim C4, amended. The candidates are the original path and its reversal, and for
  each of the two whose subpath is closed its shifts back by every \<open>i\<close> from 1
  below the number of commands less one: rotations of the original are generated as
  well as rotations of the reversal.
\<close>

theorem fromPaths_candidates:
  assumes "fromPaths E subIdx fromPath = Inr ps"
  shows "set ps = {fromPath, reverseSubPath E subIdx fromPath}
           \<union> rotationsOf E subIdx fromPath
           \<union> rotationsOf E subIdx (reverseSubPath E subIdx fromPath)"
proof -
  from assms obtain a b where a: "shiftedPaths E subIdx fromPath = Inr a"
    and b: "shiftedPaths E subIdx (reverseSubPath E subIdx fromPath) = Inr b"
    and ps: "ps = a @ b"
    by (auto simp: fromPaths_def dest!: bindE_Inr)
  from shiftedPaths_set [OF a] shiftedPaths_set [OF b] ps show ?thesis by auto
qed

lemma fromPaths_triangle: "fromPaths simpleEnv 0 triangle = Inr triangleCandidates"
  by code_simp

text \<open>
  The theorem at a closed triangle.
\<close>

theorem fromPaths_candidates_witness:
  "\<exists>ps. fromPaths simpleEnv 0 triangle = Inr ps
     \<and> set ps = {triangle, reverseSubPath simpleEnv 0 triangle}
           \<union> rotationsOf simpleEnv 0 triangle
           \<union> rotationsOf simpleEnv 0 (reverseSubPath simpleEnv 0 triangle)"
  using fromPaths_triangle fromPaths_candidates [OF fromPaths_triangle] by blast

lemma shift_reversedTriangle:
  "shiftSubPathBack simpleEnv 0 i reversedTriangle
     = shiftSubPathBack simpleEnv 0 (i mod 3) reversedTriangle"
  by (simp add: simpleEnv_def updateSubPath_def reversedTriangle_def simpleShiftBack_def Let_def)

lemma shift_reversedTriangle_neq:
  "shiftSubPathBack simpleEnv 0 i reversedTriangle \<noteq> shiftedTriangle"
proof -
  have 0: "shiftSubPathBack simpleEnv 0 0 reversedTriangle \<noteq> shiftedTriangle" by code_simp
  have 1: "shiftSubPathBack simpleEnv 0 1 reversedTriangle \<noteq> shiftedTriangle" by code_simp
  have 2: "shiftSubPathBack simpleEnv 0 2 reversedTriangle \<noteq> shiftedTriangle" by code_simp
  have "i mod 3 = 0 \<or> i mod 3 = 1 \<or> i mod 3 = 2" by arith
  with 0 1 2 show ?thesis by (subst shift_reversedTriangle) auto
qed

text \<open>
  Claim C4 as stated fails: for a closed triangle the candidates hold a rotation of
  the original that is neither the original, nor the reversal, nor a rotation of the
  reversal.
\<close>

theorem rotations_of_the_original_counterexample:
  "\<exists>ps. fromPaths simpleEnv 0 triangle = Inr ps \<and> set ps \<noteq> specCandidates simpleEnv 0 triangle"
proof -
  have rv: "reverseSubPath simpleEnv 0 triangle = reversedTriangle" by code_simp
  have sp: "getSubPath simpleEnv triangle 0 = Some (triangle ! 0)" by code_simp
  have n1: "shiftedTriangle \<noteq> triangle" by code_simp
  have n2: "shiftedTriangle \<noteq> reversedTriangle" by code_simp
  have "shiftedTriangle \<notin> specCandidates simpleEnv 0 triangle"
    using n1 n2 shift_reversedTriangle_neq [THEN not_sym]
    by (auto simp: specCandidates_def rv sp Let_def)
  moreover have "shiftedTriangle \<in> set triangleCandidates"
    by (simp add: triangleCandidates_def)
  ultimately have "set triangleCandidates \<noteq> specCandidates simpleEnv 0 triangle" by blast
  with fromPaths_triangle show ?thesis by blast
qed

subsection \<open>Members of the lists that autoFixSubPath builds\<close>

lemma mapE_member:
  "mapE f xs = Inr ys \<Longrightarrow> y \<in> set ys \<Longrightarrow> \<exists>x \<in> set xs. f x = Inr y"
proof (induction xs arbitrary: ys)
  case Nil
  then show ?case by simp
next
  case (Cons x xs)
  from Cons.prems(1) obtain z zs where z: "f x = Inr z" and zs: "mapE f xs = Inr zs"
    and ys: "ys = z # zs"
    by (auto dest!: bindE_Inr)
  from Cons.prems(2) ys consider "y = z" | "y \<in> set zs" by auto
  then show ?case
  proof cases
    case 1
    with z show ?thesis by auto
  next
    case 2
    from Cons.IH [OF zs 2] show ?thesis by auto
  qed
qed

lemma foldl_keepBetter_member: "foldl keepBetter x xs \<in> set (x # xs)"
  by (induction xs arbitrary: x) (auto simp: keepBetter_def)

subsection \<open>The kinds after autoFixSubPath\<close>

lemma kinds_agree_iff: "fromKind E a b = toKind E a b \<longleftrightarrow> compatible E a b"
  by (auto simp: fromKind_def toKind_def compatible_def)

lemma zip_upt_Cons:
  "zip [k ..< k + length (x # xs)] (x # xs) = (k, x) # zip [Suc k ..< Suc k + length xs] xs"
  by (subst upt_conv_Cons) auto

lemma list_update_same: "xs ! k = v \<Longrightarrow> xs[k := v] = xs"
  by auto

lemma getCommand_nth:
  "commandsOf E p i = Inr cs \<Longrightarrow> k < length cs \<Longrightarrow> getCommand E p i k = Inr (Some (cs ! k))"
  by (simp add: getCommand_def)

lemma convertLoop_kinds:
  assumes cs: "convertSetsKind E" and tc: "commandsOf E toPath subIdx = Inr tc"
  shows "k + length fcs = length tc \<Longrightarrow>
     kindsAt E fm subIdx = Some kf \<Longrightarrow> length kf = length tc \<Longrightarrow>
     kindsAt E tm subIdx = Some kt \<Longrightarrow> length kt = length tc \<Longrightarrow>
     drop k kf = map (getSvgChar E) fcs \<Longrightarrow>
     drop k kt = map (getSvgChar E) (drop k tc) \<Longrightarrow>
     \<exists>fm' tm'.
        convertLoop E subIdx toPath fm tm (zip [k ..< k + length fcs] fcs) = Inr (fm', tm')
        \<and> kindsAt E fm' subIdx = Some (take k kf @ map2 (fromKind E) fcs (drop k tc))
        \<and> kindsAt E tm' subIdx = Some (take k kt @ map2 (toKind E) fcs (drop k tc))"
proof (induction fcs arbitrary: k fm tm kf kt)
  case Nil
  then show ?case by simp
next
  case (Cons fc fcs)
  from Cons.prems(1) have klt: "k < length tc" and le: "Suc k + length fcs = length tc"
    by simp_all
  have gc: "getCommand E toPath subIdx k = Inr (Some (tc ! k))"
    using getCommand_nth [OF tc klt] .
  have dr: "drop k tc = tc ! k # drop (Suc k) tc"
    using klt by (simp add: Cons_nth_drop_Suc)
  from Cons.prems(3,6) klt have kfk: "kf ! k = getSvgChar E fc"
    by (metis Cons_nth_drop_Suc list.inject list.simps(9))
  from Cons.prems(5,7) klt dr have ktk: "kt ! k = getSvgChar E (tc ! k)"
    by (metis Cons_nth_drop_Suc list.inject list.simps(9))
  define kf1 where "kf1 = kf[k := fromKind E fc (tc ! k)]"
  define kt1 where "kt1 = kt[k := toKind E fc (tc ! k)]"
  have kk: "k < length kf" "k < length kt" using klt Cons.prems(3,5) by simp_all
  have "\<exists>fm1 tm1. convertLoop E subIdx toPath fm tm (zip [k ..< k + length (fc # fcs)] (fc # fcs))
          = convertLoop E subIdx toPath fm1 tm1 (zip [Suc k ..< Suc k + length fcs] fcs)
        \<and> kindsAt E fm1 subIdx = Some kf1 \<and> kindsAt E tm1 subIdx = Some kt1"
  proof -
    consider (same) "getSvgChar E fc = getSvgChar E (tc ! k)"
      | (f) "getSvgChar E fc \<noteq> getSvgChar E (tc ! k)" "canConvertTo E fc (getSvgChar E (tc ! k))"
      | (t) "getSvgChar E fc \<noteq> getSvgChar E (tc ! k)" "\<not> canConvertTo E fc (getSvgChar E (tc ! k))"
            "canConvertTo E (tc ! k) (getSvgChar E fc)"
      | (none) "getSvgChar E fc \<noteq> getSvgChar E (tc ! k)" "\<not> canConvertTo E fc (getSvgChar E (tc ! k))"
            "\<not> canConvertTo E (tc ! k) (getSvgChar E fc)"
      by blast
    then show ?thesis
    proof cases
      case same
      have "convertLoop E subIdx toPath fm tm (zip [k ..< k + length (fc # fcs)] (fc # fcs))
          = convertLoop E subIdx toPath fm tm (zip [Suc k ..< Suc k + length fcs] fcs)"
        by (simp only: zip_upt_Cons convertLoop.simps gc bindE.simps option.case same simp_thms if_True)
      moreover have "kf1 = kf" "kt1 = kt"
        using same kfk ktk by (simp_all add: kf1_def kt1_def fromKind_def toKind_def list_update_same)
      ultimately show ?thesis using Cons.prems(2,4) by blast
    next
      case f
      have "convertLoop E subIdx toPath fm tm (zip [k ..< k + length (fc # fcs)] (fc # fcs))
          = convertLoop E subIdx toPath (convertCommand E subIdx k (getSvgChar E (tc ! k)) fm) tm
              (zip [Suc k ..< Suc k + length fcs] fcs)"
        by (simp only: zip_upt_Cons convertLoop.simps gc bindE.simps option.case f if_True if_False)
      moreover have "kindsAt E (convertCommand E subIdx k (getSvgChar E (tc ! k)) fm) subIdx = Some kf1"
        using cs Cons.prems(2) kk(1) f by (simp add: convertSetsKind_def kf1_def fromKind_def)
      moreover have "kt1 = kt"
        using f ktk by (simp add: kt1_def toKind_def list_update_same)
      ultimately show ?thesis using Cons.prems(4) by blast
    next
      case t
      have "convertLoop E subIdx toPath fm tm (zip [k ..< k + length (fc # fcs)] (fc # fcs))
          = convertLoop E subIdx toPath fm (convertCommand E subIdx k (getSvgChar E fc) tm)
              (zip [Suc k ..< Suc k + length fcs] fcs)"
        by (simp only: zip_upt_Cons convertLoop.simps gc bindE.simps option.case t if_True if_False)
      moreover have "kindsAt E (convertCommand E subIdx k (getSvgChar E fc) tm) subIdx = Some kt1"
        using cs Cons.prems(4) kk(2) t by (simp add: convertSetsKind_def kt1_def toKind_def)
      moreover have "kf1 = kf"
        using t kfk by (simp add: kf1_def fromKind_def list_update_same)
      ultimately show ?thesis using Cons.prems(2) by blast
    next
      case none
      have "convertLoop E subIdx toPath fm tm (zip [k ..< k + length (fc # fcs)] (fc # fcs))
          = convertLoop E subIdx toPath fm tm (zip [Suc k ..< Suc k + length fcs] fcs)"
        by (simp only: zip_upt_Cons convertLoop.simps gc bindE.simps option.case none if_True if_False)
      moreover have "kf1 = kf" "kt1 = kt"
        using none kfk ktk by (simp_all add: kf1_def kt1_def fromKind_def toKind_def list_update_same)
      ultimately show ?thesis using Cons.prems(2,4) by blast
    qed
  qed
  then obtain fm1 tm1 where
    st: "convertLoop E subIdx toPath fm tm (zip [k ..< k + length (fc # fcs)] (fc # fcs))
          = convertLoop E subIdx toPath fm1 tm1 (zip [Suc k ..< Suc k + length fcs] fcs)"
    and f1: "kindsAt E fm1 subIdx = Some kf1" and t1: "kindsAt E tm1 subIdx = Some kt1"
    by blast
  have l1: "length kf1 = length tc" "length kt1 = length tc"
    using Cons.prems by (simp_all add: kf1_def kt1_def)
  have "drop (Suc k) kf1 = drop (Suc k) kf"
    unfolding kf1_def by (rule drop_update_cancel) simp
  then have "drop (Suc k) kf1 = tl (drop k kf)"
    by (simp add: drop_Suc tl_drop)
  with Cons.prems(6) have d1: "drop (Suc k) kf1 = map (getSvgChar E) fcs"
    by simp
  have "drop (Suc k) kt1 = drop (Suc k) kt"
    unfolding kt1_def by (rule drop_update_cancel) simp
  then have "drop (Suc k) kt1 = tl (drop k kt)"
    by (simp add: drop_Suc tl_drop)
  with Cons.prems(7) dr have d2: "drop (Suc k) kt1 = map (getSvgChar E) (drop (Suc k) tc)"
    by simp
  from Cons.IH [OF le f1 l1(1) t1 l1(2) d1 d2] obtain fm' tm' where
    r: "convertLoop E subIdx toPath fm1 tm1 (zip [Suc k ..< Suc k + length fcs] fcs) = Inr (fm', tm')"
    and kf': "kindsAt E fm' subIdx
        = Some (take (Suc k) kf1 @ map2 (fromKind E) fcs (drop (Suc k) tc))"
    and kt': "kindsAt E tm' subIdx
        = Some (take (Suc k) kt1 @ map2 (toKind E) fcs (drop (Suc k) tc))"
    by blast
  have ef: "take (Suc k) kf1 @ map2 (fromKind E) fcs (drop (Suc k) tc)
      = take k kf @ map2 (fromKind E) (fc # fcs) (drop k tc)"
    using kk by (simp add: kf1_def dr take_Suc_conv_app_nth)
  have et: "take (Suc k) kt1 @ map2 (toKind E) fcs (drop (Suc k) tc)
      = take k kt @ map2 (toKind E) (fc # fcs) (drop k tc)"
    using kk by (simp add: kt1_def dr take_Suc_conv_app_nth)
  show ?case using st r kf' kt' ef et by simp
qed

text \<open>The gaps of one side of an alignment end up in the gap streaks, each in one.\<close>

lemma withoutGaps_length:
  "length as = length (withoutGaps as) + length (filter (\<lambda>a. a = None) as)"
  by (induction as rule: withoutGaps.induct) simp_all

lemma gapStreaksFrom_total:
  "cur = [] \<or> (as \<noteq> [] \<and> hd as = None) \<Longrightarrow>
   sum_list (map length (gapStreaksFrom cur (processAlignmentsFrom n as)))
     = length cur + length (filter (\<lambda>a. a = None) as)
   \<and> [] \<notin> set (gapStreaksFrom cur (processAlignmentsFrom n as))"
proof (induction as arbitrary: cur n)
  case Nil
  then show ?case by simp
next
  case (Cons a as)
  show ?case
  proof (cases a)
    case (Some c)
    with Cons.prems have "cur = []" by simp
    with Cons.IH [of "[]" "n + 1"] Some show ?thesis by (simp add: Let_def)
  next
    case None
    show ?thesis
    proof (cases "as \<noteq> [] \<and> hd as = None")
      case True
      then have ng: "(case as of [] \<Rightarrow> False | b # bs \<Rightarrow> b = None)"
        by (cases as) auto
      from Cons.IH [of "cur @ [\<lparr>isGap = True, isNextGap = True, nextCmdIdx = n\<rparr>]" n] True
      show ?thesis using None ng by (simp add: Let_def)
    next
      case False
      then have ng: "\<not> (case as of [] \<Rightarrow> False | b # bs \<Rightarrow> b = None)"
        by (cases as) auto
      from Cons.IH [of "[]" n]
      show ?thesis using None ng by (simp add: Let_def)
    qed
  qed
qed

lemma createGapStreaks_total:
  "sum_list (map length (createGapStreaks (processAlignments as)))
     = length (filter (\<lambda>a. a = None) as)
   \<and> [] \<notin> set (createGapStreaks (processAlignments as))"
  using gapStreaksFrom_total [of "[]" as 0]
  by (simp add: createGapStreaks_def processAlignments_def)

text \<open>
  In a subpath of two commands or more every split is at an index from 1 below the
  number of commands, and adds as many commands as its streak has gaps.
\<close>

lemma clamp_range: "2 \<le> n \<Longrightarrow> 1 \<le> clamp x 1 (int n - 1) \<and> clamp x 1 (int n - 1) < int n"
  by (auto simp: clamp_def Let_def)

lemma splitOps_range:
  assumes "2 \<le> n"
  shows "[] \<notin> set gs \<Longrightarrow>
     \<exists>ops. mapE (splitOpOf i n) gs = Inr ops
       \<and> (\<forall>op \<in> set ops. 1 \<le> opCmdIdx op \<and> opCmdIdx op < int n)
       \<and> sum_list (map (\<lambda>op. length (opTs op)) ops) = sum_list (map length gs)"
proof (induction gs)
  case Nil
  then show ?case by simp
next
  case (Cons g gs)
  from Cons.prems have "g \<noteq> []" and "[] \<notin> set gs" by auto
  from Cons.IH [OF this(2)] obtain ops where m: "mapE (splitOpOf i n) gs = Inr ops"
    and r: "\<forall>op \<in> set ops. 1 \<le> opCmdIdx op \<and> opCmdIdx op < int n"
    and s: "sum_list (map (\<lambda>op. length (opTs op)) ops) = sum_list (map length gs)"
    by blast
  from \<open>g \<noteq> []\<close> obtain op where o: "splitOpOf i n g = Inr op"
    and oc: "opCmdIdx op = clamp (int (nextCmdIdx (last g))) 1 (int n - 1)"
    and ot: "length (opTs op) = length g"
    by (cases g) (auto simp: splitOpOf_def)
  from clamp_range [OF assms] oc have "1 \<le> opCmdIdx op \<and> opCmdIdx op < int n" by simp
  with m r s o ot show ?case by simp
qed

lemma splits_count:
  assumes "splitAdds E"
  shows "commandCount E p i = Some m \<Longrightarrow> n \<le> m \<Longrightarrow>
     \<forall>op \<in> set ops. 1 \<le> opCmdIdx op \<and> opCmdIdx op < int n \<Longrightarrow>
     commandCount E
       (foldl (\<lambda>mutator op. splitCommand E i (opCmdIdx op) (opTs op) mutator) p ops) i
       = Some (m + sum_list (map (\<lambda>op. length (opTs op)) ops))"
proof (induction ops arbitrary: p m)
  case Nil
  then show ?case by simp
next
  case (Cons op ops)
  from Cons.prems have "1 \<le> opCmdIdx op" and "opCmdIdx op < int m" by auto
  with assms Cons.prems(1)
  have c: "commandCount E (splitCommand E i (opCmdIdx op) (opTs op) p) i
      = Some (m + length (opTs op))"
    by (simp add: splitAdds_def)
  from Cons.IH [OF c] Cons.prems(2,3) show ?case by (simp add: add.assoc)
qed

lemma commandCount_commandsOf:
  "commandCount E p i = Some n \<longleftrightarrow> (\<exists>cs. commandsOf E p i = Inr cs \<and> length cs = n)"
  by (auto simp: commandCount_def commandsOf_def split: option.splits)

lemma applySplits_count:
  assumes "splitAdds E" and "sortPermutes E"
    and "commandCount E p i = Some n" and "2 \<le> n"
  shows "\<exists>p'. applySplits E i p (createGapStreaks (processAlignments as)) = Inr p'
     \<and> commandCount E p' i = Some (n + length (filter (\<lambda>a. a = None) as))"
proof -
  let ?gs = "createGapStreaks (processAlignments as)"
  from assms(3) obtain cs where cs: "commandsOf E p i = Inr cs" and n: "length cs = n"
    by (auto simp: commandCount_commandsOf)
  from createGapStreaks_total [of as] have ne: "[] \<notin> set (rev ?gs)"
    and tot: "sum_list (map length (rev ?gs)) = length (filter (\<lambda>a. a = None) as)"
    by (simp_all add: rev_map [symmetric])
  from splitOps_range [OF assms(4) ne, of i] obtain ops where
    m: "mapE (splitOpOf i n) (rev ?gs) = Inr ops"
    and r: "\<forall>op \<in> set ops. 1 \<le> opCmdIdx op \<and> opCmdIdx op < int n"
    and s: "sum_list (map (\<lambda>op. length (opTs op)) ops) = sum_list (map length (rev ?gs))"
    by blast
  from assms(2) have ms: "mset (sortPathOps E ops) = mset ops"
    by (simp add: sortPermutes_def)
  then have "set (sortPathOps E ops) = set ops" by (rule mset_eq_setD)
  with r have r': "\<forall>op \<in> set (sortPathOps E ops). 1 \<le> opCmdIdx op \<and> opCmdIdx op < int n"
    by simp
  have "sum_list (map (\<lambda>op. length (opTs op)) (sortPathOps E ops))
      = sum_mset (image_mset (\<lambda>op. length (opTs op)) (mset (sortPathOps E ops)))"
    by (simp add: sum_mset_sum_list [symmetric])
  also have "\<dots> = sum_list (map (\<lambda>op. length (opTs op)) ops)"
    by (simp add: ms sum_mset_sum_list [symmetric])
  finally have s': "sum_list (map (\<lambda>op. length (opTs op)) (sortPathOps E ops))
      = length (filter (\<lambda>a. a = None) as)"
    using s tot by simp
  from splits_count [OF assms(1,3) order_refl r'] s'
  show ?thesis by (simp add: applySplits_def cs n m)
qed

text \<open>Every candidate has the number of commands of the path it is made from.\<close>

lemma shiftedPaths_count:
  assumes "keepsCount E" and "commandCount E p i = Some m"
  shows "\<exists>ps. shiftedPaths E i p = Inr ps \<and> ps \<noteq> []
     \<and> (\<forall>q \<in> set ps. commandCount E q i = Some m)"
proof -
  from assms(2) obtain s where s: "getSubPath E p i = Some s"
    by (auto simp: commandCount_def split: option.splits)
  from assms have "commandCount E (shiftSubPathBack E i k p) i = Some m" for k
    by (simp add: keepsCount_def)
  with assms(2) s show ?thesis by (auto simp: shiftedPaths_def)
qed

lemma fromPaths_count:
  assumes "keepsCount E" and "commandCount E p i = Some m"
  shows "\<exists>ps. fromPaths E i p = Inr ps \<and> ps \<noteq> []
     \<and> (\<forall>q \<in> set ps. commandCount E q i = Some m)"
proof -
  from assms have r: "commandCount E (reverseSubPath E i p) i = Some m"
    by (simp add: keepsCount_def)
  from shiftedPaths_count [OF assms] obtain a where a: "shiftedPaths E i p = Inr a"
    "a \<noteq> []" "\<forall>q \<in> set a. commandCount E q i = Some m"
    by blast
  from shiftedPaths_count [OF assms(1) r] obtain b where
    b: "shiftedPaths E i (reverseSubPath E i p) = Inr b"
    "\<forall>q \<in> set b. commandCount E q i = Some m"
    by blast
  from a b show ?thesis by (auto simp: fromPaths_def)
qed

lemma mapE_total:
  "\<forall>x \<in> set xs. \<exists>y. f x = Inr y \<Longrightarrow> \<exists>ys. mapE f xs = Inr ys \<and> length ys = length xs"
proof (induction xs)
  case Nil
  then show ?case by simp
next
  case (Cons x xs)
  from Cons.prems obtain y where y: "f x = Inr y" by auto
  from Cons.IH Cons.prems obtain ys where "mapE f xs = Inr ys" and "length ys = length xs"
    by auto
  with y show ?case by simp
qed

text \<open>
  The splits leave the two subpaths with one number of commands, the length of the
  alignment that was kept.
\<close>

lemma splitStage_counts:
  assumes "keepsCount E" and "splitAdds E" and "alignFillsGaps E" and "sortPermutes E"
    and "commandCount E fromPath i = Some m" and "2 \<le> m"
    and "commandCount E toPath i = Some n" and "2 \<le> n"
  shows "\<exists>fr tr fc tc. splitStage E i fromPath toPath = Inr (fr, tr)
     \<and> commandsOf E fr i = Inr fc \<and> commandsOf E tr i = Inr tc \<and> length fc = length tc"
proof -
  from fromPaths_count [OF assms(1,5)] obtain paths where
    fp: "fromPaths E i fromPath = Inr paths" and ne: "paths \<noteq> []"
    and cnt: "\<forall>q \<in> set paths. commandCount E q i = Some m"
    by blast
  from assms(7) obtain tc0 where tc0: "commandsOf E toPath i = Inr tc0" "length tc0 = n"
    by (auto simp: commandCount_commandsOf)
  let ?f = "\<lambda>q. bindE (commandsOf E q i) (\<lambda>fromCmds.
       bindE (commandsOf E toPath i) (\<lambda>toCmds.
         Inr (q, align E fromCmds toCmds (getScoreFn E))))"
  have "\<forall>q \<in> set paths. \<exists>y. ?f q = Inr y"
    using cnt tc0 by (auto simp: commandCount_commandsOf)
  from mapE_total [OF this] obtain infos where
    ai: "alignmentInfos E i paths toPath = Inr infos" and "length infos = length paths"
    by (auto simp: alignmentInfos_def)
  with ne have "infos \<noteq> []" by auto
  then obtain info where ba: "bestAlignment infos = Inr info" and mem: "info \<in> set infos"
    using foldl_keepBetter_member [of "hd infos" "tl infos"]
    by (cases infos) (auto simp: bestAlignment_def)
  from mapE_member [OF ai [unfolded alignmentInfos_def] mem] obtain q where
    q: "q \<in> set paths" and fq: "?f q = Inr info"
    by blast
  from q cnt obtain qc where qc: "commandsOf E q i = Inr qc" "length qc = m"
    by (auto simp: commandCount_commandsOf)
  from fq qc tc0 have info: "info = (q, align E qc tc0 (getScoreFn E))" by simp
  let ?al = "align E qc tc0 (getScoreFn E)"
  from assms(3) have len: "length (alignFrom ?al) = length (alignTo ?al)"
    and wf: "withoutGaps (alignFrom ?al) = qc" and wt: "withoutGaps (alignTo ?al) = tc0"
    by (simp_all add: alignFillsGaps_def)
  from q cnt have cq: "commandCount E q i = Some m" by simp
  from applySplits_count [OF assms(2,4) cq assms(6), of "alignFrom ?al"] obtain fr where
    fr: "applySplits E i q (createGapStreaks (processAlignments (alignFrom ?al))) = Inr fr"
    and cf: "commandCount E fr i = Some (m + length (filter (\<lambda>a. a = None) (alignFrom ?al)))"
    by blast
  from applySplits_count [OF assms(2,4,7,8), of "alignTo ?al"] obtain tr where
    tr: "applySplits E i toPath (createGapStreaks (processAlignments (alignTo ?al))) = Inr tr"
    and ct: "commandCount E tr i = Some (n + length (filter (\<lambda>a. a = None) (alignTo ?al)))"
    by blast
  from withoutGaps_length [of "alignFrom ?al"] wf qc
  have lf: "m + length (filter (\<lambda>a. a = None) (alignFrom ?al)) = length (alignFrom ?al)"
    by simp
  from withoutGaps_length [of "alignTo ?al"] wt tc0
  have lt: "n + length (filter (\<lambda>a. a = None) (alignTo ?al)) = length (alignTo ?al)"
    by simp
  from cf lf obtain fc where fc: "commandsOf E fr i = Inr fc" "length fc = length (alignFrom ?al)"
    by (auto simp: commandCount_commandsOf)
  from ct lt obtain tc where tc: "commandsOf E tr i = Inr tc" "length tc = length (alignTo ?al)"
    by (auto simp: commandCount_commandsOf)
  have "splitStage E i fromPath toPath = Inr (fr, tr)"
    by (simp add: splitStage_def fp ai ba info fr tr Let_def)
  with fc tc len show ?thesis by auto
qed

text \<open>
  Claim C2, amended. For two subpaths of two commands or more each,
  \<open>autoFixSubPath\<close> returns, and the two returned subpaths have the same number of
  commands; their sequences of command kinds are the same exactly when, after the
  splits, every pair of commands at the same position has one kind or a conversion in
  at least one direction. A pair with no conversion in either direction keeps its two
  kinds. (Assumptions on the absent collaborators: reversing and shifting keep the
  number of commands, a split with \<open>k\<close> fractions adds \<open>k\<close> commands, each side of
  an alignment is its sequence with gaps put in, \<open>sortPathOps\<close> permutes, and
  \<open>convertCommand\<close> sets the kind of the command it converts and no other.)
\<close>

theorem autoFixSubPath_kinds:
  assumes "keepsCount E" and "splitAdds E" and "alignFillsGaps E" and "sortPermutes E"
    and "convertSetsKind E"
    and "commandCount E fromPath subIdx = Some m" and "2 \<le> m"
    and "commandCount E toPath subIdx = Some n" and "2 \<le> n"
  shows "\<exists>fr tr fc tc f' t'.
           splitStage E subIdx fromPath toPath = Inr (fr, tr)
           \<and> commandsOf E fr subIdx = Inr fc \<and> commandsOf E tr subIdx = Inr tc
           \<and> length fc = length tc
           \<and> autoFixSubPath E subIdx fromPath toPath = Inr (f', t')
           \<and> kindsAt E f' subIdx = Some (map2 (fromKind E) fc tc)
           \<and> kindsAt E t' subIdx = Some (map2 (toKind E) fc tc)
           \<and> (kindsAt E f' subIdx = kindsAt E t' subIdx
                \<longleftrightarrow> (\<forall>k < length fc. compatible E (fc ! k) (tc ! k)))"
proof -
  from splitStage_counts [OF assms(1-4) assms(6-9)] obtain fr tr fc tc where
    ss: "splitStage E subIdx fromPath toPath = Inr (fr, tr)"
    and cf: "commandsOf E fr subIdx = Inr fc" and ct: "commandsOf E tr subIdx = Inr tc"
    and len: "length fc = length tc"
    by blast
  have kf: "kindsAt E fr subIdx = Some (map (getSvgChar E) fc)"
    and kt: "kindsAt E tr subIdx = Some (map (getSvgChar E) tc)"
    using cf ct by (auto simp: kindsAt_def commandsOf_def split: option.splits)
  from convertLoop_kinds [OF assms(5) ct, of 0 fc fr "map (getSvgChar E) fc" tr
      "map (getSvgChar E) tc"] len kf kt
  obtain f' t' where l: "convertLoop E subIdx tr fr tr (zip [0 ..< length fc] fc) = Inr (f', t')"
    and kf': "kindsAt E f' subIdx = Some (map2 (fromKind E) fc tc)"
    and kt': "kindsAt E t' subIdx = Some (map2 (toKind E) fc tc)"
    by auto
  have "autoFixSubPath E subIdx fromPath toPath = Inr (f', t')"
    by (simp add: autoFixSubPath_def ss autoConvert_def cf l)
  moreover have "map2 (fromKind E) fc tc = map2 (toKind E) fc tc
      \<longleftrightarrow> (\<forall>k < length fc. compatible E (fc ! k) (tc ! k))"
    using len by (simp add: list_eq_iff_nth_eq kinds_agree_iff)
  ultimately show ?thesis using ss cf ct len kf' kt' by auto
qed

text \<open>The small instance meets the assumptions.\<close>

lemma simpleEnv_convertSetsKind: "convertSetsKind simpleEnv"
  by (auto simp: convertSetsKind_def kindsAt_def simpleEnv_def updateSubPath_def simpleConvert_def
        map_update split: if_splits)

lemma simpleEnv_keepsCount: "keepsCount simpleEnv"
  by (auto simp: keepsCount_def commandCount_def simpleEnv_def updateSubPath_def
        simpleReverse_def simpleShiftBack_def Let_def)

lemma simpleEnv_splitAdds: "splitAdds simpleEnv"
  by (auto simp: splitAdds_def commandCount_def simpleEnv_def updateSubPath_def simpleSplit_def
        split: if_splits)

lemma withoutGaps_append: "withoutGaps (xs @ ys) = withoutGaps xs @ withoutGaps ys"
  by (induction xs rule: withoutGaps.induct) simp_all

lemma withoutGaps_rev: "withoutGaps (rev xs) = rev (withoutGaps xs)"
  by (induction xs rule: withoutGaps.induct) (simp_all add: withoutGaps_append)

lemma nwTrace_withoutGaps:
  "withoutGaps (map fst (nwTrace f g xs ys)) = xs
   \<and> withoutGaps (map snd (nwTrace f g xs ys)) = ys"
  by (induction f g xs ys rule: nwTrace.induct) simp_all

lemma simpleEnv_alignFillsGaps: "alignFillsGaps simpleEnv"
  by (simp add: alignFillsGaps_def simpleEnv_def simpleAlign_def Let_def
        rev_map [symmetric] withoutGaps_rev nwTrace_withoutGaps)

lemma simpleEnv_sortPermutes: "sortPermutes simpleEnv"
  by (simp add: sortPermutes_def simpleEnv_def)

text \<open>
  The theorem at a subpath of a move and three lines and a subpath of a move and two
  quadratic curves: the second gets one more command, the lines are converted.
\<close>

theorem autoFixSubPath_kinds_witness:
  "\<exists>f' t'. autoFixSubPath simpleEnv 0 fourLines twoCurves = Inr (f', t')
      \<and> kindsAt simpleEnv f' 0 = Some ''MQQQ'' \<and> kindsAt simpleEnv t' 0 = Some ''MQQQ''"
proof -
  have m: "commandCount simpleEnv fourLines 0 = Some 4" and "(2::nat) \<le> 4"
    and n: "commandCount simpleEnv twoCurves 0 = Some 3" and "(2::nat) \<le> 3"
    by code_simp+
  from autoFixSubPath_kinds [OF simpleEnv_keepsCount simpleEnv_splitAdds
      simpleEnv_alignFillsGaps simpleEnv_sortPermutes simpleEnv_convertSetsKind this]
  obtain fr tr fc tc f' t' where
    s: "splitStage simpleEnv 0 fourLines twoCurves = Inr (fr, tr)"
    and cf: "commandsOf simpleEnv fr 0 = Inr fc" and ct: "commandsOf simpleEnv tr 0 = Inr tc"
    and r: "autoFixSubPath simpleEnv 0 fourLines twoCurves = Inr (f', t')"
    and kf: "kindsAt simpleEnv f' 0 = Some (map2 (fromKind simpleEnv) fc tc)"
    and kt: "kindsAt simpleEnv t' 0 = Some (map2 (toKind simpleEnv) fc tc)"
    by blast
  have s': "splitStage simpleEnv 0 fourLines twoCurves
      = Inr (fourLines, [[(CHR ''M'', 0), (CHR ''Q'', 1), (CHR ''Q'', 1), (CHR ''Q'', 3)]])"
    by code_simp
  from s s' have fr: "fr = fourLines"
    and tr: "tr = [[(CHR ''M'', 0), (CHR ''Q'', 1), (CHR ''Q'', 1), (CHR ''Q'', 3)]]"
    by simp_all
  have "commandsOf simpleEnv fourLines 0 = Inr (fourLines ! 0)" by code_simp
  with cf fr have fc: "fc = fourLines ! 0" by simp
  have "commandsOf simpleEnv [[(CHR ''M'', 0), (CHR ''Q'', 1), (CHR ''Q'', 1), (CHR ''Q'', 3)]] 0
      = Inr [(CHR ''M'', 0), (CHR ''Q'', 1), (CHR ''Q'', 1), (CHR ''Q'', 3)]"
    by code_simp
  with ct tr have tc: "tc = [(CHR ''M'', 0), (CHR ''Q'', 1), (CHR ''Q'', 1), (CHR ''Q'', 3)]"
    by simp
  have "map2 (fromKind simpleEnv) (fourLines ! 0)
          [(CHR ''M'', 0), (CHR ''Q'', 1), (CHR ''Q'', 1), (CHR ''Q'', 3)] = ''MQQQ''"
    and "map2 (toKind simpleEnv) (fourLines ! 0)
          [(CHR ''M'', 0), (CHR ''Q'', 1), (CHR ''Q'', 1), (CHR ''Q'', 3)] = ''MQQQ''"
    by code_simp+
  with r kf kt fc tc show ?thesis by auto
qed

text \<open>
  Claim C2 as stated fails in two ways. An arc and a cubic curve convert in neither
  direction, and the returned subpaths have the kinds \<open>MAA\<close> and \<open>MCC\<close>. For a
  subpath of one command the split index, clamped between 1 and the number of commands
  less one, is 1, which is no index of the subpath: in the instance no command is
  added, and the returned subpaths have the kinds \<open>M\<close> and \<open>MLL\<close>; with the
  one command on the other side the call ends in a \<open>TypeError\<close>.
\<close>

theorem unequal_kinds_counterexample:
  "autoFixSubPath simpleEnv 0 [[(CHR ''M'', 0), (CHR ''A'', 1)]] [[(CHR ''M'', 0), (CHR ''C'', 1)]]
     = Inr ([[(CHR ''M'', 1), (CHR ''A'', 0), (CHR ''A'', 0)]],
            [[(CHR ''M'', 0), (CHR ''C'', 1), (CHR ''C'', 1)]])
   \<and> kindsAt simpleEnv [[(CHR ''M'', 1), (CHR ''A'', 0), (CHR ''A'', 0)]] 0 = Some ''MAA''
   \<and> kindsAt simpleEnv [[(CHR ''M'', 0), (CHR ''C'', 1), (CHR ''C'', 1)]] 0 = Some ''MCC''
   \<and> ''MAA'' \<noteq> ''MCC''
   \<and> autoFixSubPath simpleEnv 0 [[(CHR ''M'', 0)]] [[(CHR ''M'', 0), (CHR ''L'', 1), (CHR ''L'', 2)]]
     = Inr ([[(CHR ''M'', 0)]], [[(CHR ''M'', 0), (CHR ''L'', 1), (CHR ''L'', 2)]])
   \<and> kindsAt simpleEnv [[(CHR ''M'', 0)]] 0 = Some ''M''
   \<and> kindsAt simpleEnv [[(CHR ''M'', 0), (CHR ''L'', 1), (CHR ''L'', 2)]] 0 = Some ''MLL''
   \<and> ''M'' \<noteq> ''MLL''
   \<and> clamp 0 1 (int (length [(CHR ''M'', 0::rat)]) - 1) = 1
   \<and> autoFixSubPath simpleEnv 0 [[(CHR ''M'', 0), (CHR ''L'', 1), (CHR ''L'', 2)]] [[(CHR ''M'', 0)]]
     = Inl TypeError"
  by code_simp

subsection \<open>The subpaths that autoFix does not reach\<close>

lemma shiftedPaths_frame:
  assumes "framed E" and "i \<noteq> j" and "shiftedPaths E i p = Inr ps" and "q \<in> set ps"
  shows "getSubPath E q j = getSubPath E p j"
  using assms by (auto simp: shiftedPaths_def framed_def split: option.splits if_splits)

lemma fromPaths_frame:
  assumes "framed E" and "i \<noteq> j" and "fromPaths E i p = Inr ps" and "q \<in> set ps"
  shows "getSubPath E q j = getSubPath E p j"
proof -
  from assms(3) obtain a b where a: "shiftedPaths E i p = Inr a"
    and b: "shiftedPaths E i (reverseSubPath E i p) = Inr b" and ps: "ps = a @ b"
    by (auto simp: fromPaths_def dest!: bindE_Inr)
  from assms(1,2) have r: "getSubPath E (reverseSubPath E i p) j = getSubPath E p j"
    by (simp add: framed_def)
  from assms(4) ps consider "q \<in> set a" | "q \<in> set b" by auto
  then show ?thesis
  proof cases
    case 1
    from shiftedPaths_frame [OF assms(1,2) a 1] show ?thesis .
  next
    case 2
    from shiftedPaths_frame [OF assms(1,2) b 2] r show ?thesis by simp
  qed
qed

lemma alignmentInfos_member:
  assumes "alignmentInfos E i paths toPath = Inr infos" and "info \<in> set infos"
  shows "fst info \<in> set paths"
proof -
  from mapE_member [OF assms [unfolded alignmentInfos_def]]
  show ?thesis by (auto dest!: bindE_Inr)
qed

lemma bestAlignment_member:
  assumes "bestAlignment infos = Inr r"
  shows "r \<in> set infos"
proof (cases infos)
  case Nil
  with assms show ?thesis by (simp add: bestAlignment_def)
next
  case (Cons x xs)
  with assms have "r = foldl keepBetter x xs" by (simp add: bestAlignment_def)
  with foldl_keepBetter_member [of x xs] Cons show ?thesis by simp
qed

lemma splits_frame:
  assumes "framed E" and "i \<noteq> j"
  shows "getSubPath E (foldl (\<lambda>mutator op. splitCommand E i (opCmdIdx op) (opTs op) mutator) p ops) j
           = getSubPath E p j"
  using assms by (induction ops arbitrary: p) (auto simp: framed_def)

lemma applySplits_frame:
  assumes "framed E" and "i \<noteq> j" and "applySplits E i p gapGroups = Inr p'"
  shows "getSubPath E p' j = getSubPath E p j"
  using assms(3) splits_frame [OF assms(1,2)]
  by (auto simp: applySplits_def dest!: bindE_Inr)

lemma convertLoop_frame:
  assumes "framed E" and "i \<noteq> j"
  shows "convertLoop E i toPath fm tm pairs = Inr (fm', tm') \<Longrightarrow>
         getSubPath E fm' j = getSubPath E fm j \<and> getSubPath E tm' j = getSubPath E tm j"
proof (induction pairs arbitrary: fm tm)
  case Nil
  then show ?case by simp
next
  case (Cons pr pairs)
  obtain cmdIdx fromCmd where pr: "pr = (cmdIdx, fromCmd)" by (cases pr)
  from assms have cv: "\<And>k ch p. getSubPath E (convertCommand E i k ch p) j = getSubPath E p j"
    by (simp add: framed_def)
  from Cons.prems pr have "\<exists>fm0 tm0. convertLoop E i toPath fm0 tm0 pairs = Inr (fm', tm')
      \<and> getSubPath E fm0 j = getSubPath E fm j \<and> getSubPath E tm0 j = getSubPath E tm j"
    by (auto dest!: bindE_Inr split: option.splits if_splits) (metis cv)+
  then obtain fm0 tm0 where l: "convertLoop E i toPath fm0 tm0 pairs = Inr (fm', tm')"
    and f: "getSubPath E fm0 j = getSubPath E fm j"
    and t: "getSubPath E tm0 j = getSubPath E tm j"
    by blast
  from Cons.IH [OF l] f t show ?case by simp
qed

lemma autoConvert_frame:
  assumes "framed E" and "i \<noteq> j" and "autoConvert E i f t = Inr (f', t')"
  shows "getSubPath E f' j = getSubPath E f j \<and> getSubPath E t' j = getSubPath E t j"
  using assms(3) convertLoop_frame [OF assms(1,2)]
  by (auto simp: autoConvert_def dest!: bindE_Inr)

lemma splitStage_frame:
  assumes "framed E" and "i \<noteq> j" and "splitStage E i f t = Inr (f', t')"
  shows "getSubPath E f' j = getSubPath E f j \<and> getSubPath E t' j = getSubPath E t j"
proof -
  from assms(3) obtain paths infos info where p: "fromPaths E i f = Inr paths"
    and a: "alignmentInfos E i paths t = Inr infos"
    and b: "bestAlignment infos = Inr info"
    and sf: "applySplits E i (fst info)
               (createGapStreaks (processAlignments (alignFrom (snd info)))) = Inr f'"
    and st: "applySplits E i t
               (createGapStreaks (processAlignments (alignTo (snd info)))) = Inr t'"
    by (auto simp: splitStage_def Let_def dest!: bindE_Inr)
  from alignmentInfos_member [OF a bestAlignment_member [OF b]]
  have "fst info \<in> set paths" .
  from fromPaths_frame [OF assms(1,2) p this]
    applySplits_frame [OF assms(1,2) sf] applySplits_frame [OF assms(1,2) st]
  show ?thesis by simp
qed

lemma autoFixSubPath_frame:
  assumes "framed E" and "i \<noteq> j" and "autoFixSubPath E i f t = Inr (f', t')"
  shows "getSubPath E f' j = getSubPath E f j \<and> getSubPath E t' j = getSubPath E t j"
proof -
  from assms(3) obtain f1 t1 where s: "splitStage E i f t = Inr (f1, t1)"
    and c: "autoConvert E i f1 t1 = Inr (f', t')"
    by (auto simp: autoFixSubPath_def dest!: bindE_Inr)
  from splitStage_frame [OF assms(1,2) s] autoConvert_frame [OF assms(1,2) c]
  show ?thesis by simp
qed

lemma autoFixLoop_frame:
  assumes "framed E"
  shows "autoFixLoop E idxs f t = Inr (f', t') \<Longrightarrow> j \<notin> set idxs \<Longrightarrow>
         getSubPath E f' j = getSubPath E f j \<and> getSubPath E t' j = getSubPath E t j"
proof (induction idxs arbitrary: f t)
  case Nil
  then show ?case by simp
next
  case (Cons i idxs)
  from Cons.prems(2) have ij: "i \<noteq> j" and rest: "j \<notin> set idxs" by auto
  from Cons.prems(1) obtain fc tc f1 t1 where "commandsOf E f i = Inr fc"
    and "commandsOf E t i = Inr tc"
    and sub: "autoFixSubPath E i (if length fc \<ge> length tc then f else t)
            (if length fc \<ge> length tc then t else f) = Inr (f1, t1)"
    and lp: "autoFixLoop E idxs (if length fc \<ge> length tc then f1 else t1)
            (if length fc \<ge> length tc then t1 else f1) = Inr (f', t')"
    by (auto simp: Let_def dest!: bindE_Inr)
  from autoFixSubPath_frame [OF assms ij sub] Cons.IH [OF lp rest]
  show ?case by (auto split: if_splits)
qed

text \<open>
  Claim C10. \<open>autoFix\<close> reconciles the subpaths at the indices below the smaller of
  the two subpath counts only: every subpath of either returned path at an index from
  that minimum on is the subpath of the input path at that index. (Assumption on the
  absent mutator: an operation on one subpath leaves the other subpaths as they are.)
\<close>

theorem autoFix_leaves_extra_subpaths:
  assumes "framed E"
    and "autoFix E fromPath toPath = Inr (f', t')"
    and "min (numSubPaths E fromPath) (numSubPaths E toPath) \<le> j"
  shows "getSubPath E f' j = getSubPath E fromPath j \<and> getSubPath E t' j = getSubPath E toPath j"
proof -
  from assms(3) have "j \<notin> set [0 ..< min (numSubPaths E fromPath) (numSubPaths E toPath)]"
    by (auto simp: min_def split: if_splits)
  from autoFixLoop_frame [OF assms(1) assms(2) [unfolded autoFix_def] this]
  show ?thesis .
qed

lemma simpleEnv_framed: "framed simpleEnv"
  by (simp add: framed_def simpleEnv_def updateSubPath_def)

text \<open>
  The theorem at a path of two subpaths and a path of one.
\<close>

theorem autoFix_leaves_extra_subpaths_witness:
  "autoFix simpleEnv twoSubPaths oneSubPath
     = Inr ([[(CHR ''M'', 0), (CHR ''Q'', 1), (CHR ''Q'', 1)], [(CHR ''M'', 5), (CHR ''L'', 6)]],
            [[(CHR ''M'', 0), (CHR ''Q'', 1), (CHR ''Q'', 2)]])
   \<and> getSubPath simpleEnv
       [[(CHR ''M'', 0), (CHR ''Q'', 1), (CHR ''Q'', 1)], [(CHR ''M'', 5), (CHR ''L'', 6)]] 1
     = getSubPath simpleEnv twoSubPaths 1
   \<and> getSubPath simpleEnv [[(CHR ''M'', 0), (CHR ''Q'', 1), (CHR ''Q'', 2)]] 1
     = getSubPath simpleEnv oneSubPath 1"
proof -
  have h: "autoFix simpleEnv twoSubPaths oneSubPath
     = Inr ([[(CHR ''M'', 0), (CHR ''Q'', 1), (CHR ''Q'', 1)], [(CHR ''M'', 5), (CHR ''L'', 6)]],
            [[(CHR ''M'', 0), (CHR ''Q'', 1), (CHR ''Q'', 2)]])"
    by code_simp
  have m: "min (numSubPaths simpleEnv twoSubPaths) (numSubPaths simpleEnv oneSubPath) \<le> 1"
    by code_simp
  from autoFix_leaves_extra_subpaths [OF simpleEnv_framed h m] h show ?thesis by blast
qed

end
